theory Spec2Isabelle
  imports Complex_Main "HOL-Library.AList"
begin

section \<open>Values of the Python program\<close>

text \<open>
  The backend is \<^verbatim>\<open>src/backend/app.py\<close>. Strings are ASCII strings. A calendar date
  (\<^verbatim>\<open>datetime.date\<close>) has a year, a month and a day; Python compares dates by year,
  then month, then day. Prices and strikes are rationals, counts are integers.
  An exception is a value of type \<open>error\<close>; a function that may raise returns
  \<open>error + 'a\<close>.
\<close>

datatype date = Date (year: nat) (month: nat) (day: nat)

instantiation date :: linorder
begin

definition less_eq_date :: "date \<Rightarrow> date \<Rightarrow> bool" where
  "less_eq_date a b \<longleftrightarrow>
     year a < year b
     \<or> (year a = year b \<and> (month a < month b \<or> (month a = month b \<and> day a \<le> day b)))"

definition less_date :: "date \<Rightarrow> date \<Rightarrow> bool" where
  "less_date a b \<longleftrightarrow>
     year a < year b
     \<or> (year a = year b \<and> (month a < month b \<or> (month a = month b \<and> day a < day b)))"

instance
  by standard (auto simp: less_eq_date_def less_date_def date.expand)

end

datatype error =
    ValueError
  | IndexError
  | TypeError
  | KiteException string

subsection \<open>String functions of the standard library\<close>

text \<open>\<^verbatim>\<open>str.upper\<close> on ASCII: the 26 small letters are mapped, everything else is kept.\<close>

definition upper_char :: "char \<Rightarrow> char" where
  "upper_char c =
     (case map_of (zip ''abcdefghijklmnopqrstuvwxyz'' ''ABCDEFGHIJKLMNOPQRSTUVWXYZ'') c of
        Some u \<Rightarrow> u
      | None \<Rightarrow> c)"

definition upper :: "string \<Rightarrow> string" where
  "upper s = map upper_char s"

text \<open>\<^verbatim>\<open>str(n)\<close> of an integer: decimal digits, a minus sign for negatives.\<close>

definition digit_char :: "nat \<Rightarrow> char" where
  "digit_char d = ''0123456789'' ! d"

fun str_nat :: "nat \<Rightarrow> string" where
  "str_nat n = (if n < 10 then [digit_char n] else str_nat (n div 10) @ [digit_char (n mod 10)])"

declare str_nat.simps [simp del]

definition str_int :: "int \<Rightarrow> string" where
  "str_int i = (if i < 0 then CHR ''-'' # str_nat (nat (- i)) else str_nat (nat i))"

text \<open>\<^verbatim>\<open>date.isoformat()\<close>: \<^verbatim>\<open>%04d-%02d-%02d\<close>.\<close>

definition zfill :: "nat \<Rightarrow> string \<Rightarrow> string" where
  "zfill k s = replicate (k - length s) CHR ''0'' @ s"

definition isoformat :: "date \<Rightarrow> string" where
  "isoformat dt =
     zfill 4 (str_nat (year dt)) @ ''-'' @ zfill 2 (str_nat (month dt)) @ ''-''
       @ zfill 2 (str_nat (day dt))"

text \<open>
  \<^verbatim>\<open>datetime.strptime(s, "%Y-%m-%d").date()\<close>. The format compiles to the pattern
  \<^verbatim>\<open>(\d\d\d\d)-(1[0-2]|0[1-9]|[1-9])-(3[01]|[12]\d|0[1-9]|[1-9]| [1-9])\<close>; the whole
  string must be consumed and the three numbers must form a date of the calendar
  (years 1 to 9999). \<open>None\<close> stands for the \<^verbatim>\<open>ValueError\<close> that is raised otherwise.
\<close>

definition digit_val :: "char \<Rightarrow> nat option" where
  "digit_val c = map_of (zip ''0123456789'' [0, 1, 2, 3, 4, 5, 6, 7, 8, 9]) c"

fun parse_month :: "string \<Rightarrow> (nat \<times> string) option" where
  "parse_month [] = None"
| "parse_month [c] =
     (case digit_val c of
        Some d \<Rightarrow> if 1 \<le> d then Some (d, []) else None
      | None \<Rightarrow> None)"
| "parse_month (c1 # c2 # r) =
     (case digit_val c1 of
        None \<Rightarrow> None
      | Some d1 \<Rightarrow>
          (case digit_val c2 of
             Some d2 \<Rightarrow>
               if d1 = 1 \<and> d2 \<le> 2 then Some (10 + d2, r)
               else if d1 = 0 \<and> 1 \<le> d2 then Some (d2, r)
               else if 1 \<le> d1 then Some (d1, c2 # r)
               else None
           | None \<Rightarrow> if 1 \<le> d1 then Some (d1, c2 # r) else None))"

fun parse_day :: "string \<Rightarrow> (nat \<times> string) option" where
  "parse_day [] = None"
| "parse_day [c] =
     (case digit_val c of
        Some d \<Rightarrow> if 1 \<le> d then Some (d, []) else None
      | None \<Rightarrow> None)"
| "parse_day (c1 # c2 # r) =
     (case digit_val c1 of
        None \<Rightarrow>
          (case digit_val c2 of
             Some d2 \<Rightarrow> if c1 = CHR '' '' \<and> 1 \<le> d2 then Some (d2, r) else None
           | None \<Rightarrow> None)
      | Some d1 \<Rightarrow>
          (case digit_val c2 of
             Some d2 \<Rightarrow>
               if d1 = 3 \<and> d2 \<le> 1 then Some (30 + d2, r)
               else if d1 = 1 \<or> d1 = 2 then Some (10 * d1 + d2, r)
               else if d1 = 0 \<and> 1 \<le> d2 then Some (d2, r)
               else if 1 \<le> d1 then Some (d1, c2 # r)
               else None
           | None \<Rightarrow> if 1 \<le> d1 then Some (d1, c2 # r) else None))"

definition is_leap :: "nat \<Rightarrow> bool" where
  "is_leap y = (y mod 4 = 0 \<and> (y mod 100 \<noteq> 0 \<or> y mod 400 = 0))"

definition days_in_month :: "nat \<Rightarrow> nat \<Rightarrow> nat" where
  "days_in_month y m =
     (if m = 2 then (if is_leap y then 29 else 28)
      else if m = 4 \<or> m = 6 \<or> m = 9 \<or> m = 11 then 30
      else 31)"

definition make_date :: "nat \<Rightarrow> nat \<Rightarrow> nat \<Rightarrow> date option" where
  "make_date y m d =
     (if 1 \<le> y \<and> y \<le> 9999 \<and> 1 \<le> m \<and> m \<le> 12 \<and> 1 \<le> d \<and> d \<le> days_in_month y m
      then Some (Date y m d) else None)"

fun strptime :: "string \<Rightarrow> date option" where
  "strptime (y1 # y2 # y3 # y4 # dash # rest) =
     (case (digit_val y1, digit_val y2, digit_val y3, digit_val y4) of
        (Some a, Some b, Some c, Some d) \<Rightarrow>
          if dash \<noteq> CHR ''-'' then None
          else
            (case parse_month rest of
               None \<Rightarrow> None
             | Some (m, rest1) \<Rightarrow>
                 (case rest1 of
                    [] \<Rightarrow> None
                  | dash1 # rest2 \<Rightarrow>
                      if dash1 \<noteq> CHR ''-'' then None
                      else
                        (case parse_day rest2 of
                           None \<Rightarrow> None
                         | Some (dd, rest3) \<Rightarrow>
                             if rest3 \<noteq> [] then None
                             else make_date (1000 * a + 100 * b + 10 * c + d) m dd)))
      | _ \<Rightarrow> None)"
| "strptime _ = None"

section \<open>Data of the broker\<close>

text \<open>
  A row of \<^verbatim>\<open>kite.instruments("NFO")\<close>. The broker's rows carry every column, so the
  defaults of \<^verbatim>\<open>.get\<close> do not fire; the \<^verbatim>\<open>expiry\<close> column is a date or the empty
  string, which is falsy (\<open>None\<close> here).
\<close>

record instrument =
  instrument_token :: int
  tradingsymbol :: string
  name :: string
  expiry :: "date option"
  strike :: rat
  lot_size :: int
  instrument_type :: string

text \<open>
  An entry of \<^verbatim>\<open>kite.quote(...)\<close>. Its keys are read with \<^verbatim>\<open>.get\<close>, so each may be
  absent (\<open>None\<close>). The depth snapshot has the lists \<^verbatim>\<open>buy\<close> and \<^verbatim>\<open>sell\<close> of price
  levels; the depth with neither key is the empty dict.
\<close>

record level =
  price :: "rat option"

record depth =
  buy :: "level list option"
  sell :: "level list option"

record quote_data =
  q_last_price :: "rat option"
  q_oi :: "int option"
  q_volume :: "int option"
  q_depth :: "depth option"

text \<open>
  The client object \<^verbatim>\<open>kite\<close>. Each call is a remote call: it reads and changes the
  outside world \<open>'w\<close> and either raises or returns. \<^verbatim>\<open>kite.ltp\<close> returns a dict in
  insertion order, each value with its \<^verbatim>\<open>last_price\<close>.
\<close>

record 'w kite =
  instruments :: "string \<Rightarrow> 'w \<Rightarrow> (error + instrument list) \<times> 'w"
  quote :: "string list \<Rightarrow> 'w \<Rightarrow> (error + (string \<rightharpoonup> quote_data)) \<times> 'w"
  ltp :: "string list \<Rightarrow> 'w \<Rightarrow> (error + (string \<times> rat) list) \<times> 'w"

section \<open>The option chain builder: \<^verbatim>\<open>get_option_chain\<close>\<close>

subsection \<open>Filtering by symbol and by expiry\<close>

text \<open>Lines 343 to 347: the contracts of the symbol that are calls or puts.\<close>

definition symbol_options :: "string \<Rightarrow> instrument list \<Rightarrow> instrument list" where
  "symbol_options symbol_upper insts =
     [i \<leftarrow> insts. upper (name i) = symbol_upper \<and> instrument_type i \<in> set [''CE'', ''PE'']]"

text \<open>
  Lines 358 to 365: \<^verbatim>\<open>expiries = sorted(set(o["expiry"] for o in options if o.get("expiry")))\<close>,
  then the first expiry on or after today, else the last expiry, else none.
\<close>

definition expiries_of :: "instrument list \<Rightarrow> date list" where
  "expiries_of options = sort (remdups (List.map_filter expiry options))"

definition select_expiry :: "date \<Rightarrow> instrument list \<Rightarrow> date option" where
  "select_expiry today options =
     (let expiries = expiries_of options;
          future_expiries = [e \<leftarrow> expiries. e \<ge> today]
      in if future_expiries \<noteq> [] then Some (future_expiries ! 0)
         else if expiries \<noteq> [] then Some (last expiries)
         else None)"

text \<open>
  Lines 353 to 365. A supplied expiry that is the empty string is falsy and counts as
  not supplied. When no contract has an expiry, the list is left as it is.
\<close>

definition filter_expiry ::
  "date \<Rightarrow> string option \<Rightarrow> instrument list \<Rightarrow> error + instrument list" where
  "filter_expiry today expiry_str options =
     (if expiry_str \<noteq> None \<and> expiry_str \<noteq> Some []
      then
        (case strptime (the expiry_str) of
           None \<Rightarrow> Inl ValueError
         | Some target_expiry \<Rightarrow> Inr [opt \<leftarrow> options. expiry opt = Some target_expiry])
      else
        (case select_expiry today options of
           Some nearest \<Rightarrow> Inr [opt \<leftarrow> options. expiry opt = Some nearest]
         | None \<Rightarrow> Inr options))"

subsection \<open>The batched quote fetch\<close>

text \<open>\<^verbatim>\<open>range(start, stop, step)\<close> for a positive step.\<close>

definition range_step :: "nat \<Rightarrow> nat \<Rightarrow> nat \<Rightarrow> nat list" where
  "range_step start stop step =
     map (\<lambda>k. start + k * step) [0..<(stop - start + step - 1) div step]"

definition batch_size :: nat where
  "batch_size = 200"

text \<open>
  Lines 377 to 383, one round of the loop at index \<open>i\<close>: the slice of the tokens, the
  identifiers of the contracts whose token is in the slice, one call of \<^verbatim>\<open>kite.quote\<close>;
  \<^verbatim>\<open>all_quotes.update(quotes)\<close> when it returns, nothing (a log line) when it raises.
\<close>

definition quote_batch ::
  "'w kite \<Rightarrow> instrument list \<Rightarrow> string list \<Rightarrow> nat \<Rightarrow>
   (string \<rightharpoonup> quote_data) \<times> 'w \<Rightarrow> (string \<rightharpoonup> quote_data) \<times> 'w" where
  "quote_batch kite options tokens i acc =
     (case acc of (all_quotes, w) \<Rightarrow>
        let batch = take batch_size (drop i tokens);
            instrument_ids =
              map (\<lambda>opt. ''NFO:'' @ tradingsymbol opt)
                [opt \<leftarrow> options. str_int (instrument_token opt) \<in> set batch]
        in (case quote kite instrument_ids w of
              (Inr quotes, w') \<Rightarrow> (all_quotes ++ quotes, w')
            | (Inl qe, w') \<Rightarrow> (all_quotes, w')))"

text \<open>Lines 371 to 383.\<close>

definition fetch_quotes ::
  "'w kite \<Rightarrow> instrument list \<Rightarrow> 'w \<Rightarrow> (string \<rightharpoonup> quote_data) \<times> 'w" where
  "fetch_quotes kite options w =
     (let tokens = map (\<lambda>opt. str_int (instrument_token opt)) options
      in foldl (\<lambda>acc i. quote_batch kite options tokens i acc) (Map.empty, w)
           (range_step 0 (length tokens) batch_size))"

subsection \<open>The spot price\<close>

text \<open>Lines 386 to 398: any exception leaves the spot price at 0.\<close>

definition fetch_spot :: "'w kite \<Rightarrow> string \<Rightarrow> 'w \<Rightarrow> rat \<times> 'w" where
  "fetch_spot kite symbol_upper w =
     (let key =
            (if symbol_upper \<in> set [''NIFTY'', ''NIFTY 50''] then ''NSE:NIFTY 50''
             else if symbol_upper \<in> set [''BANKNIFTY'', ''NIFTY BANK''] then ''NSE:NIFTY BANK''
             else ''NSE:'' @ symbol_upper)
      in case ltp kite [key] w of
           (Inr spot, w') \<Rightarrow> (if spot \<noteq> [] then snd (spot ! 0) else 0, w')
         | (Inl e, w') \<Rightarrow> (0, w'))"

subsection \<open>Building the chain\<close>

record leg =
  leg_instrument_token :: int
  leg_tradingsymbol :: string
  leg_last_price :: rat
  leg_oi :: int
  leg_volume :: int
  leg_bid :: rat
  leg_ask :: rat
  leg_lot_size :: int

text \<open>
  A row of the chain is the dict \<^verbatim>\<open>{"strike": strike, "CE": None, "PE": None}\<close>, later
  updated at the key of the contract's type: \<open>legs\<close> holds the keys other than
  \<^verbatim>\<open>"strike"\<close>, and \<open>Some None\<close> is a key that is present with the value \<^verbatim>\<open>None\<close>.
\<close>

record row =
  row_strike :: rat
  legs :: "string \<rightharpoonup> leg option"

definition no_quote :: quote_data where
  "no_quote = \<lparr>q_last_price = None, q_oi = None, q_volume = None, q_depth = None\<rparr>"

text \<open>
  Lines 419 and 420:
  \<^verbatim>\<open>quote.get("depth", {}).get(side, [{}])[0].get("price", 0) if quote.get("depth") else 0\<close>.
  An absent or empty depth is falsy; an empty list of levels raises \<^verbatim>\<open>IndexError\<close>.
\<close>

definition top_price :: "quote_data \<Rightarrow> (depth \<Rightarrow> level list option) \<Rightarrow> error + rat" where
  "top_price q side =
     (case q_depth q of
        None \<Rightarrow> Inr 0
      | Some d \<Rightarrow>
          if buy d = None \<and> sell d = None then Inr 0
          else
            (case side d of
               None \<Rightarrow> Inr 0
             | Some [] \<Rightarrow> Inl IndexError
             | Some (l # ls) \<Rightarrow> Inr (case price l of None \<Rightarrow> 0 | Some p \<Rightarrow> p)))"

definition get_or :: "'a option \<Rightarrow> 'a \<Rightarrow> 'a" where
  "get_or v dflt = (case v of None \<Rightarrow> dflt | Some x \<Rightarrow> x)"

text \<open>Lines 413 to 422: the dict stored for a contract, from its quote.\<close>

definition make_leg :: "quote_data \<Rightarrow> instrument \<Rightarrow> error + leg" where
  "make_leg q opt =
     (case top_price q buy of
        Inl e \<Rightarrow> Inl e
      | Inr bid \<Rightarrow>
          (case top_price q sell of
             Inl e \<Rightarrow> Inl e
           | Inr ask \<Rightarrow>
               Inr \<lparr>leg_instrument_token = instrument_token opt,
                    leg_tradingsymbol = tradingsymbol opt,
                    leg_last_price = get_or (q_last_price q) 0,
                    leg_oi = get_or (q_oi q) 0,
                    leg_volume = get_or (q_volume q) 0,
                    leg_bid = bid,
                    leg_ask = ask,
                    leg_lot_size = lot_size opt\<rparr>))"

text \<open>Line 411: the row created for a strike that is not yet in the chain.\<close>

definition new_row :: "rat \<Rightarrow> row" where
  "new_row s = \<lparr>row_strike = s, legs = [''CE'' \<mapsto> None, ''PE'' \<mapsto> None]\<rparr>"

text \<open>Line 413: \<^verbatim>\<open>chain[strike][opt_type] = ...\<close> on the row.\<close>

definition put_leg :: "string \<Rightarrow> leg \<Rightarrow> row \<Rightarrow> row" where
  "put_leg opt_type l r = r\<lparr>legs := (legs r)(opt_type \<mapsto> Some l)\<rparr>"

text \<open>
  Lines 403 to 425, one round of the loop. The chain is a dict keyed by strike, kept
  here in insertion order; the second component is \<^verbatim>\<open>expiry_date\<close>.
\<close>

definition chain_step ::
  "(string \<rightharpoonup> quote_data) \<Rightarrow> instrument \<Rightarrow> (rat \<times> row) list \<times> string option \<Rightarrow>
   error + (rat \<times> row) list \<times> string option" where
  "chain_step all_quotes opt st =
     (case st of (chain, expiry_date) \<Rightarrow>
        let s = strike opt;
            opt_type = instrument_type opt;
            ts = tradingsymbol opt;
            quote_key = ''NFO:'' @ ts;
            q = get_or (all_quotes quote_key) no_quote;
            chain1 = (if s \<notin> fst ` set chain then chain @ [(s, new_row s)] else chain)
        in (case make_leg q opt of
              Inl e \<Rightarrow> Inl e
            | Inr l \<Rightarrow>
                Inr (AList.map_entry s (put_leg opt_type l) chain1,
                     if (expiry_date = None \<or> expiry_date = Some []) \<and> expiry opt \<noteq> None
                     then Some (isoformat (the (expiry opt)))
                     else expiry_date)))"

fun build_chain ::
  "(string \<rightharpoonup> quote_data) \<Rightarrow> instrument list \<Rightarrow> (rat \<times> row) list \<times> string option \<Rightarrow>
   error + (rat \<times> row) list \<times> string option" where
  "build_chain all_quotes [] st = Inr st"
| "build_chain all_quotes (opt # options) st =
     (case chain_step all_quotes opt st of
        Inl e \<Rightarrow> Inl e
      | Inr st' \<Rightarrow> build_chain all_quotes options st')"

subsection \<open>The handler\<close>

text \<open>
  The JSON body of a response and its HTTP status. \<open>Error_exception e\<close> is the body
  \<^verbatim>\<open>{"error": str(e)}\<close> for the exception \<open>e\<close>.
\<close>

record chain_response =
  r_symbol :: string
  r_spot_price :: rat
  r_expiry :: "string option"
  r_chain :: "row list"

datatype body =
    Error_message string
  | Error_exception error
  | Option_chain chain_response

type_synonym response = "body \<times> nat"

text \<open>
  Lines 331 to 439. \<open>symbol\<close> and \<open>expiry_str\<close> are the query parameters (\<open>None\<close> when
  absent), \<open>today\<close> is \<^verbatim>\<open>datetime.now().date()\<close>. Every exception raised inside the
  \<^verbatim>\<open>try\<close> block reaches the handler of line 437, which answers 500.
\<close>

definition get_option_chain ::
  "'w kite \<Rightarrow> date \<Rightarrow> string option \<Rightarrow> string option \<Rightarrow> 'w \<Rightarrow> response \<times> 'w" where
  "get_option_chain kite today symbol expiry_str w =
     (if symbol = None \<or> symbol = Some []
      then ((Error_message ''symbol parameter required'', 400), w)
      else
        (case instruments kite ''NFO'' w of
           (Inl e, w1) \<Rightarrow> ((Error_exception e, 500), w1)
         | (Inr insts, w1) \<Rightarrow>
             let symbol_upper = upper (the symbol);
                 options = symbol_options symbol_upper insts
             in if options = []
                then ((Error_message (''No options found for '' @ the symbol), 404), w1)
                else
                  (case filter_expiry today expiry_str options of
                     Inl e \<Rightarrow> ((Error_exception e, 500), w1)
                   | Inr options \<Rightarrow>
                       if options = []
                       then ((Error_message ''No options for selected expiry'', 404), w1)
                       else
                         (case fetch_quotes kite options w1 of
                            (all_quotes, w2) \<Rightarrow>
                              (case fetch_spot kite symbol_upper w2 of
                                 (spot_price, w3) \<Rightarrow>
                                   (case build_chain all_quotes options ([], None) of
                                      Inl e \<Rightarrow> ((Error_exception e, 500), w3)
                                    | Inr (chain, expiry_date) \<Rightarrow>
                                        ((Option_chain
                                            \<lparr>r_symbol = symbol_upper,
                                             r_spot_price = spot_price,
                                             r_expiry = expiry_date,
                                             r_chain = sort_key row_strike (map snd chain)\<rparr>,
                                          200), w3)))))))"

section \<open>The scanner: nearest future of each symbol\<close>

text \<open>
  Lines 603 to 615 of \<^verbatim>\<open>scanner_fetch\<close>, for the list \<open>target_symbols\<close> of lines 595
  to 600. \<^verbatim>\<open>futures_by_symbol\<close> is a dict from symbol to the catalogue row kept for it.
  The comparison with the expiry of the row already kept raises \<^verbatim>\<open>TypeError\<close> if that
  row has no date.
\<close>

definition futures_instruments :: "string list \<Rightarrow> instrument list \<Rightarrow> instrument list" where
  "futures_instruments target_symbols nfo_instruments =
     [i \<leftarrow> nfo_instruments.
        instrument_type i = ''FUT'' \<and> upper (name i) \<in> set target_symbols]"

definition nearest_step ::
  "date \<Rightarrow> instrument \<Rightarrow> (string \<rightharpoonup> instrument) \<Rightarrow> error + (string \<rightharpoonup> instrument)" where
  "nearest_step today f futures_by_symbol =
     (let sym = upper (name f);
          exp = expiry f
      in if exp \<noteq> None \<and> the exp \<ge> today
         then
           (case futures_by_symbol sym of
              None \<Rightarrow> Inr (futures_by_symbol(sym \<mapsto> f))
            | Some g \<Rightarrow>
                (case expiry g of
                   None \<Rightarrow> Inl TypeError
                 | Some kept \<Rightarrow>
                     if the exp < kept then Inr (futures_by_symbol(sym \<mapsto> f))
                     else Inr futures_by_symbol))
         else Inr futures_by_symbol)"

fun nearest_loop ::
  "date \<Rightarrow> instrument list \<Rightarrow> (string \<rightharpoonup> instrument) \<Rightarrow> error + (string \<rightharpoonup> instrument)" where
  "nearest_loop today [] futures_by_symbol = Inr futures_by_symbol"
| "nearest_loop today (f # fs) futures_by_symbol =
     (case nearest_step today f futures_by_symbol of
        Inl e \<Rightarrow> Inl e
      | Inr futures_by_symbol' \<Rightarrow> nearest_loop today fs futures_by_symbol')"

definition scanner_nearest ::
  "date \<Rightarrow> string list \<Rightarrow> instrument list \<Rightarrow> error + (string \<rightharpoonup> instrument)" where
  "scanner_nearest today target_symbols nfo_instruments =
     nearest_loop today (futures_instruments target_symbols nfo_instruments) Map.empty"

section \<open>The live tick buffer\<close>

subsection \<open>Parsing the token list of a poll\<close>

text \<open>
  \<^verbatim>\<open>str.split(",")\<close>, \<^verbatim>\<open>str.strip()\<close> and \<^verbatim>\<open>int(s)\<close> on ASCII strings. The white space
  of \<^verbatim>\<open>strip\<close> is the characters 9 to 13, 28 to 31 and the blank. \<^verbatim>\<open>int\<close> reads an
  optional sign and decimal digits, with single underscores allowed between digits;
  \<open>None\<close> stands for its \<^verbatim>\<open>ValueError\<close>. The interpreter's cap on the number of digits
  is left out.
\<close>

fun split_on :: "char \<Rightarrow> string \<Rightarrow> string list" where
  "split_on sep [] = [] # []"
| "split_on sep (c # cs) =
     (if c = sep then [] # split_on sep cs
      else (case split_on sep cs of
              [] \<Rightarrow> [c] # []
            | piece # pieces \<Rightarrow> (c # piece) # pieces))"

definition is_space :: "char \<Rightarrow> bool" where
  "is_space c = (c \<in> set [CHR 0x09, CHR 0x0A, CHR 0x0B, CHR 0x0C, CHR 0x0D,
                           CHR 0x1C, CHR 0x1D, CHR 0x1E, CHR 0x1F, CHR '' ''])"

definition strip :: "string \<Rightarrow> string" where
  "strip s = rev (dropWhile is_space (rev (dropWhile is_space s)))"

fun int_rest :: "nat \<Rightarrow> string \<Rightarrow> nat option" where
  "int_rest acc [] = Some acc"
| "int_rest acc [c] =
     (case digit_val c of None \<Rightarrow> None | Some d \<Rightarrow> Some (10 * acc + d))"
| "int_rest acc (c # c' # cs) =
     (if c = CHR ''_''
      then (case digit_val c' of None \<Rightarrow> None | Some d \<Rightarrow> int_rest (10 * acc + d) cs)
      else (case digit_val c of None \<Rightarrow> None | Some d \<Rightarrow> int_rest (10 * acc + d) (c' # cs)))"

definition int_digits :: "string \<Rightarrow> nat option" where
  "int_digits s =
     (case s of
        [] \<Rightarrow> None
      | c # cs \<Rightarrow> (case digit_val c of None \<Rightarrow> None | Some d \<Rightarrow> int_rest d cs))"

definition py_int :: "string \<Rightarrow> int option" where
  "py_int s =
     (case strip s of
        [] \<Rightarrow> None
      | c # cs \<Rightarrow>
          if c = CHR ''-'' then map_option (\<lambda>n. - int n) (int_digits cs)
          else if c = CHR ''+'' then map_option int (int_digits cs)
          else map_option int (int_digits (c # cs)))"

text \<open>Line 554: \<^verbatim>\<open>[int(t.strip()) for t in tokens.split(",") if t.strip()]\<close>.\<close>

fun parse_tokens :: "string list \<Rightarrow> error + int list" where
  "parse_tokens [] = Inr []"
| "parse_tokens (t # ts) =
     (if strip t \<noteq> []
      then (case py_int (strip t) of
              None \<Rightarrow> Inl ValueError
            | Some n \<Rightarrow> (case parse_tokens ts of Inl e \<Rightarrow> Inl e | Inr ns \<Rightarrow> Inr (n # ns)))
      else parse_tokens ts)"

subsection \<open>The module state and the streaming library\<close>

text \<open>
  A tick as delivered by the stream, read with \<^verbatim>\<open>.get\<close>, and the entry stored for it.
  The buffer \<^verbatim>\<open>live_ticks\<close> is a dict keyed by the tick's \<^verbatim>\<open>instrument_token\<close>, which
  is \<^verbatim>\<open>None\<close> for a tick without one.
\<close>

record tick =
  t_instrument_token :: "int option"
  t_last_price :: "rat option"
  t_volume_traded :: "int option"
  t_oi :: "int option"
  t_ohlc :: "(string \<times> rat) list option"
  t_change :: "rat option"

record live_tick =
  lt_instrument_token :: "int option"
  lt_last_price :: "rat option"
  lt_volume :: "int option"
  lt_oi :: "int option"
  lt_ohlc :: "(string \<times> rat) list option"
  lt_change :: "rat option"
  lt_timestamp :: string

datatype mode = MODE_FULL | MODE_QUOTE | MODE_LTP

text \<open>
  A \<^verbatim>\<open>KiteTicker\<close> with the tokens and the mode that its \<^verbatim>\<open>on_connect\<close> callback holds.
\<close>

record ticker =
  tk_api_key :: string
  tk_access_token :: string
  tk_tokens :: "int list"
  tk_mode :: mode

text \<open>The globals \<^verbatim>\<open>kws\<close>, \<^verbatim>\<open>live_ticks\<close> and \<^verbatim>\<open>ticker_thread\<close> of lines 30 to 32.\<close>

record live_state =
  kws :: "ticker option"
  live_ticks :: "int option \<rightharpoonup> live_tick"
  ticker_thread :: "ticker option"

text \<open>
  The calls into the streaming library: the constructor, \<^verbatim>\<open>close\<close> and the start of the
  thread that connects. Each acts on the outside world and may raise (\<open>Some e\<close>).
\<close>

record 'w streaming =
  ws_new :: "string \<Rightarrow> string \<Rightarrow> 'w \<Rightarrow> error option \<times> 'w"
  ws_close :: "ticker \<Rightarrow> 'w \<Rightarrow> error option \<times> 'w"
  thread_start :: "ticker \<Rightarrow> 'w \<Rightarrow> error option \<times> 'w"

record sub_body =
  b_tokens :: "int list option"
  b_mode :: "string option"

datatype live_body =
    Live_error_message string
  | Live_error_exception error
  | Subscribed "int list" string
  | Unsubscribed

subsection \<open>The callback and the handlers\<close>

text \<open>
  Lines 509 to 520: \<^verbatim>\<open>on_ticks\<close> stores every tick of a batch under its token. Each tick
  comes here with the clock reading \<^verbatim>\<open>datetime.now().isoformat()\<close> taken when it is
  stored.
\<close>

definition on_tick :: "string \<Rightarrow> tick \<Rightarrow> live_state \<Rightarrow> live_state" where
  "on_tick now tick st =
     (let token = t_instrument_token tick
      in st\<lparr>live_ticks := (live_ticks st)(token \<mapsto>
           \<lparr>lt_instrument_token = token,
            lt_last_price = t_last_price tick,
            lt_volume = t_volume_traded tick,
            lt_oi = t_oi tick,
            lt_ohlc = t_ohlc tick,
            lt_change = t_change tick,
            lt_timestamp = now\<rparr>)\<rparr>)"

definition on_ticks :: "(string \<times> tick) list \<Rightarrow> live_state \<Rightarrow> live_state" where
  "on_ticks ticks st = foldl (\<lambda>s (now, tick). on_tick now tick s) st ticks"

text \<open>
  Lines 487 to 545: \<^verbatim>\<open>subscribe_live\<close>, with the API key of the configuration, the
  access token of the session and the JSON body of the request (\<open>None\<close> when there is
  none).
\<close>

definition subscribe_live ::
  "'w streaming \<Rightarrow> string \<Rightarrow> string \<Rightarrow> sub_body option \<Rightarrow> live_state \<Rightarrow> 'w \<Rightarrow>
   (live_body \<times> nat) \<times> live_state \<times> 'w" where
  "subscribe_live lib api_key access_token body st w =
     (let tokens = (case body of None \<Rightarrow> [] | Some b \<Rightarrow> get_or (b_tokens b) []);
          mode_str = upper (case body of None \<Rightarrow> ''full'' | Some b \<Rightarrow> get_or (b_mode b) ''full'')
      in if tokens = []
         then ((Live_error_message ''tokens array required'', 400), st, w)
         else
           let mode_map = [''FULL'' \<mapsto> MODE_FULL, ''QUOTE'' \<mapsto> MODE_QUOTE, ''LTP'' \<mapsto> MODE_LTP];
               mode = get_or (mode_map mode_str) MODE_FULL;
               w1 = (case kws st of
                       Some old \<Rightarrow> snd (ws_close lib old w)
                     | None \<Rightarrow> w)
           in case ws_new lib api_key access_token w1 of
                (Some e, w2) \<Rightarrow> ((Live_error_exception e, 500), st, w2)
              | (None, w2) \<Rightarrow>
                  let new = \<lparr>tk_api_key = api_key, tk_access_token = access_token,
                             tk_tokens = tokens, tk_mode = mode\<rparr>;
                      st1 = st\<lparr>kws := Some new, ticker_thread := Some new\<rparr>
                  in (case thread_start lib new w2 of
                        (Some e, w3) \<Rightarrow> ((Live_error_exception e, 500), st1, w3)
                      | (None, w3) \<Rightarrow> ((Subscribed tokens mode_str, 200), st1, w3)))"

text \<open>
  Lines 550 to 557: \<^verbatim>\<open>get_live_ticks\<close>. The handler has no \<^verbatim>\<open>try\<close>: a token that is
  not an integer raises out of it (\<open>Inl\<close>).
\<close>

definition get_live_ticks ::
  "string option \<Rightarrow> live_state \<Rightarrow> error + (int option \<rightharpoonup> live_tick)" where
  "get_live_ticks tokens_arg st =
     (let tokens = get_or tokens_arg []
      in if tokens \<noteq> []
         then
           (case parse_tokens (split_on CHR '','' tokens) of
              Inl e \<Rightarrow> Inl e
            | Inr token_list \<Rightarrow>
                Inr (\<lambda>k. if k \<in> Some ` set token_list then live_ticks st k else None))
         else Inr (live_ticks st))"

text \<open>Lines 562 to 572: \<^verbatim>\<open>unsubscribe_live\<close>.\<close>

definition unsubscribe_live ::
  "'w streaming \<Rightarrow> live_state \<Rightarrow> 'w \<Rightarrow> (live_body \<times> nat) \<times> live_state \<times> 'w" where
  "unsubscribe_live lib st w =
     (case kws st of
        Some old \<Rightarrow>
          (case ws_close lib old w of
             (Some e, w1) \<Rightarrow>
               ((Unsubscribed, 200), st\<lparr>kws := None, live_ticks := Map.empty\<rparr>, w1)
           | (None, w1) \<Rightarrow>
               ((Unsubscribed, 200), st\<lparr>kws := None, live_ticks := Map.empty\<rparr>, w1))
      | None \<Rightarrow> ((Unsubscribed, 200), st\<lparr>live_ticks := Map.empty\<rparr>, w))"

section \<open>Definitions used by the statements and proofs\<close>

text \<open>
  The invariant of the chain under construction: strikes are the keys of a dict, so
  they are distinct, and each row carries its own key.
\<close>

definition chain_inv :: "(rat \<times> row) list \<Rightarrow> bool" where
  "chain_inv chain =
     (distinct (map fst chain) \<and> (\<forall>p \<in> set chain. row_strike (snd p) = fst p))"

subsection \<open>A small catalogue and a broker that answers every quote\<close>

definition demo_quote :: quote_data where
  "demo_quote =
     \<lparr>q_last_price = Some 12, q_oi = Some 700, q_volume = Some 30,
      q_depth = Some \<lparr>buy = Some [\<lparr>price = Some 11\<rparr>], sell = Some [\<lparr>price = Some 13\<rparr>]\<rparr>\<rparr>"

definition demo_catalog :: "instrument list" where
  "demo_catalog =
     [\<lparr>instrument_token = 101, tradingsymbol = ''N210C'', name = ''NIFTY'',
       expiry = Some (Date 2024 1 25), strike = 210, lot_size = 50, instrument_type = ''CE''\<rparr>,
      \<lparr>instrument_token = 102, tradingsymbol = ''N210P'', name = ''NIFTY'',
       expiry = Some (Date 2024 1 25), strike = 210, lot_size = 50, instrument_type = ''PE''\<rparr>,
      \<lparr>instrument_token = 103, tradingsymbol = ''N209C'', name = ''NIFTY'',
       expiry = Some (Date 2024 1 25), strike = 209, lot_size = 50, instrument_type = ''CE''\<rparr>,
      \<lparr>instrument_token = 104, tradingsymbol = ''N210Cold'', name = ''NIFTY'',
       expiry = Some (Date 2023 12 28), strike = 210, lot_size = 50, instrument_type = ''CE''\<rparr>,
      \<lparr>instrument_token = 105, tradingsymbol = ''N211Cfeb'', name = ''NIFTY'',
       expiry = Some (Date 2024 2 29), strike = 211, lot_size = 50, instrument_type = ''CE''\<rparr>,
      \<lparr>instrument_token = 107, tradingsymbol = ''NFUTfeb'', name = ''NIFTY'',
       expiry = Some (Date 2024 2 29), strike = 0, lot_size = 50, instrument_type = ''FUT''\<rparr>,
      \<lparr>instrument_token = 108, tradingsymbol = ''NFUTdec'', name = ''NIFTY'',
       expiry = Some (Date 2023 12 28), strike = 0, lot_size = 50, instrument_type = ''FUT''\<rparr>,
      \<lparr>instrument_token = 106, tradingsymbol = ''NFUTjan'', name = ''NIFTY'',
       expiry = Some (Date 2024 1 25), strike = 0, lot_size = 50, instrument_type = ''FUT''\<rparr>]"

text \<open>The world of the demo broker counts the remote calls made so far.\<close>

definition demo_kite :: "nat kite" where
  "demo_kite =
     \<lparr>instruments = (\<lambda>exchange w. (Inr demo_catalog, Suc w)),
      quote = (\<lambda>ids w. (Inr (map_of (map (\<lambda>i. (i, demo_quote)) ids)), Suc w)),
      ltp = (\<lambda>ids w. (Inr (map (\<lambda>i. (i, 215)) ids), Suc w))\<rparr>"

text \<open>
  The answer expected for the symbol \<^verbatim>\<open>nifty\<close> on 20 January 2024 with no expiry
  given: the contracts of 25 January, strike 209 before strike 210.
\<close>

definition demo_leg :: "int \<Rightarrow> string \<Rightarrow> leg" where
  "demo_leg tok ts =
     \<lparr>leg_instrument_token = tok, leg_tradingsymbol = ts, leg_last_price = 12,
      leg_oi = 700, leg_volume = 30, leg_bid = 11, leg_ask = 13, leg_lot_size = 50\<rparr>"

definition demo_response :: chain_response where
  "demo_response =
     \<lparr>r_symbol = ''NIFTY'', r_spot_price = 215, r_expiry = Some ''2024-01-25'',
      r_chain =
        [\<lparr>row_strike = 209,
          legs = [''PE'' \<mapsto> None, ''CE'' \<mapsto> Some (demo_leg 103 ''N209C'')]\<rparr>,
         \<lparr>row_strike = 210,
          legs = [''CE'' \<mapsto> Some (demo_leg 101 ''N210C''),
                  ''PE'' \<mapsto> Some (demo_leg 102 ''N210P'')]\<rparr>]\<rparr>"

text \<open>A contract whose \<^verbatim>\<open>expiry\<close> column is empty.\<close>

definition undated_option :: instrument where
  "undated_option =
     \<lparr>instrument_token = 201, tradingsymbol = ''X100C'', name = ''XYZ'',
      expiry = None, strike = 100, lot_size = 10, instrument_type = ''CE''\<rparr>"

subsection \<open>The futures a symbol can be given by the scanner\<close>

definition is_upcoming :: "date \<Rightarrow> instrument \<Rightarrow> bool" where
  "is_upcoming today f = (case expiry f of Some d \<Rightarrow> today \<le> d | None \<Rightarrow> False)"

definition upcoming :: "date \<Rightarrow> string \<Rightarrow> instrument list \<Rightarrow> instrument list" where
  "upcoming today sy fs = [f \<leftarrow> fs. upper (name f) = sy \<and> is_upcoming today f]"

text \<open>
  What the scanner's loop maintains for a symbol: nothing is kept while no candidate was
  seen, otherwise a candidate whose expiry is the least among the candidates.
\<close>

definition nearest_ok :: "date \<Rightarrow> instrument list \<Rightarrow> instrument option \<Rightarrow> bool" where
  "nearest_ok today cands kept =
     (if cands = [] then kept = None
      else (\<exists>g d. kept = Some g \<and> g \<in> set cands \<and> expiry g = Some d
              \<and> (\<forall>f \<in> set cands. \<forall>d'. expiry f = Some d' \<longrightarrow> d \<le> d')))"

definition nearest_inv :: "date \<Rightarrow> instrument list \<Rightarrow> (string \<rightharpoonup> instrument) \<Rightarrow> bool" where
  "nearest_inv today fs m = (\<forall>sy. nearest_ok today (upcoming today sy fs) (m sy))"

text \<open>A catalogue whose only future of the symbol has expired.\<close>

definition expired_future :: instrument where
  "expired_future =
     \<lparr>instrument_token = 301, tradingsymbol = ''NFUTold'', name = ''NIFTY'',
      expiry = Some (Date 2023 12 28), strike = 0, lot_size = 50, instrument_type = ''FUT''\<rparr>"

subsection \<open>A tick buffer in use and a stream whose close raises\<close>

definition busy_state :: live_state where
  "busy_state =
     \<lparr>kws = Some \<lparr>tk_api_key = ''key'', tk_access_token = ''tok'', tk_tokens = [100], tk_mode = MODE_FULL\<rparr>,
      live_ticks =
        [Some 100 \<mapsto> \<lparr>lt_instrument_token = Some 100, lt_last_price = Some 5, lt_volume = None,
                        lt_oi = None, lt_ohlc = None, lt_change = None, lt_timestamp = ''t1''\<rparr>,
         Some 200 \<mapsto> \<lparr>lt_instrument_token = Some 200, lt_last_price = Some 7, lt_volume = None,
                        lt_oi = None, lt_ohlc = None, lt_change = None, lt_timestamp = ''t0''\<rparr>],
      ticker_thread = None\<rparr>"

definition failing_close :: "nat streaming" where
  "failing_close =
     \<lparr>ws_new = (\<lambda>k a w. (None, Suc w)),
      ws_close = (\<lambda>t w. (Some (KiteException ''closed''), Suc w)),
      thread_start = (\<lambda>t w. (None, Suc w))\<rparr>"

definition tick_300 :: tick where
  "tick_300 =
     \<lparr>t_instrument_token = Some 300, t_last_price = Some 9, t_volume_traded = None,
      t_oi = None, t_ohlc = None, t_change = None\<rparr>"

subsection \<open>What the rows of a finished chain hold\<close>

text \<open>The quote looked up for a contract at line 408.\<close>

definition quote_for :: "(string \<rightharpoonup> quote_data) \<Rightarrow> instrument \<Rightarrow> quote_data" where
  "quote_for all_quotes opt = get_or (all_quotes (''NFO:'' @ tradingsymbol opt)) no_quote"

text \<open>The contracts of a strike and a type, in processing order; the last one wins.\<close>

definition matches :: "instrument list \<Rightarrow> rat \<Rightarrow> string \<Rightarrow> instrument list" where
  "matches opts s t = [opt \<leftarrow> opts. strike opt = s \<and> instrument_type opt = t]"

definition slot_ok ::
  "(string \<rightharpoonup> quote_data) \<Rightarrow> instrument list \<Rightarrow> rat \<Rightarrow> string \<Rightarrow> leg option option \<Rightarrow> bool" where
  "slot_ok all_quotes opts s t slot =
     (if matches opts s t = [] then slot = legs (new_row s) t
      else (\<exists>l. make_leg (quote_for all_quotes (last (matches opts s t))) (last (matches opts s t)) = Inr l
               \<and> slot = Some (Some l)))"

definition rows_ok ::
  "(string \<rightharpoonup> quote_data) \<Rightarrow> instrument list \<Rightarrow> (rat \<times> row) list \<Rightarrow> bool" where
  "rows_ok all_quotes opts chain =
     (chain_inv chain \<and> fst ` set chain = strike ` set opts
      \<and> (\<forall>p \<in> set chain. \<forall>t. slot_ok all_quotes opts (fst p) t (legs (snd p) t)))"

text \<open>The leg of a contract without a quote: every number from the quote is 0.\<close>

definition zero_leg :: "instrument \<Rightarrow> leg" where
  "zero_leg opt =
     \<lparr>leg_instrument_token = instrument_token opt, leg_tradingsymbol = tradingsymbol opt,
      leg_last_price = 0, leg_oi = 0, leg_volume = 0, leg_bid = 0, leg_ask = 0,
      leg_lot_size = lot_size opt\<rparr>"

text \<open>The depth snapshot is absent or the empty dict.\<close>

definition no_depth :: "quote_data \<Rightarrow> bool" where
  "no_depth q = (q_depth q = None \<or> q_depth q = Some \<lparr>buy = None, sell = None\<rparr>)"

text \<open>
  A broker that has no quote for the put at strike 210 and no depth for the call at
  strike 209, and the answer expected from it.
\<close>

definition sparse_kite :: "nat kite" where
  "sparse_kite =
     demo_kite\<lparr>quote :=
       (\<lambda>ids w.
          (Inr (map_of (map (\<lambda>i. (i, if i = ''NFO:N209C'' then demo_quote\<lparr>q_depth := None\<rparr>
                                      else demo_quote))
                        [i \<leftarrow> ids. i \<noteq> ''NFO:N210P''])),
           Suc w))\<rparr>"

definition sparse_response :: chain_response where
  "sparse_response =
     \<lparr>r_symbol = ''NIFTY'', r_spot_price = 215, r_expiry = Some ''2024-01-25'',
      r_chain =
        [\<lparr>row_strike = 209,
          legs = [''PE'' \<mapsto> None,
                  ''CE'' \<mapsto> Some ((demo_leg 103 ''N209C'')\<lparr>leg_bid := 0, leg_ask := 0\<rparr>)]\<rparr>,
         \<lparr>row_strike = 210,
          legs = [''CE'' \<mapsto> Some (demo_leg 101 ''N210C''),
                  ''PE'' \<mapsto> Some (zero_leg (demo_catalog ! 1))]\<rparr>]\<rparr>"

subsection \<open>Observing the calls of the batched quote fetch\<close>

text \<open>
  A broker that keeps a log: every call of \<^verbatim>\<open>kite.quote\<close> is appended to the log with
  the identifiers it was given and its outcome; otherwise it behaves as the broker it
  wraps. The log makes the calls of a run observable.
\<close>

type_synonym call_log = "(string list \<times> (error + (string \<rightharpoonup> quote_data))) list"

definition logged :: "'w kite \<Rightarrow> (call_log \<times> 'w) kite" where
  "logged kite =
     \<lparr>instruments = (\<lambda>exchange lw. case instruments kite exchange (snd lw) of
                        (r, w') \<Rightarrow> (r, (fst lw, w'))),
      quote = (\<lambda>ids lw. case quote kite ids (snd lw) of
                  (r, w') \<Rightarrow> (r, (fst lw @ [(ids, r)], w'))),
      ltp = (\<lambda>ids lw. case ltp kite ids (snd lw) of
                (r, w') \<Rightarrow> (r, (fst lw, w')))\<rparr>"

text \<open>The identifier \<^verbatim>\<open>f"NFO:{tradingsymbol}"\<close> of a contract.\<close>

definition nfo_id :: "instrument \<Rightarrow> string" where
  "nfo_id opt = ''NFO:'' @ tradingsymbol opt"

text \<open>The identifiers that round \<open>i\<close> of the loop passes to \<^verbatim>\<open>kite.quote\<close> (line 378).\<close>

definition batch_ids :: "instrument list \<Rightarrow> nat \<Rightarrow> string list" where
  "batch_ids options i =
     map (\<lambda>opt. ''NFO:'' @ tradingsymbol opt)
       [opt \<leftarrow> options.
          str_int (instrument_token opt)
            \<in> set (take batch_size (drop i (map (\<lambda>opt. str_int (instrument_token opt)) options)))]"

text \<open>The results of the logged calls that returned, in call order.\<close>

fun successes :: "call_log \<Rightarrow> (string \<rightharpoonup> quote_data) list" where
  "successes [] = []"
| "successes ((ids, Inr m) # calls) = m # successes calls"
| "successes ((ids, Inl e) # calls) = successes calls"

text \<open>
  450 contracts with distinct tokens and symbols, and a broker whose second remote call
  fails: of the three batches of a fetch, one is lost.
\<close>

definition big_options :: "instrument list" where
  "big_options =
     map (\<lambda>n. \<lparr>instrument_token = int n, tradingsymbol = str_nat n, name = ''BIG'',
                expiry = Some (Date 2024 1 25), strike = of_nat n, lot_size = 1,
                instrument_type = ''CE''\<rparr>)
       [0..<450]"

definition flaky_kite :: "nat kite" where
  "flaky_kite =
     \<lparr>instruments = (\<lambda>exchange w. (Inr big_options, Suc w)),
      quote = (\<lambda>ids w. if w = 1 then (Inl (KiteException ''timeout''), Suc w)
                        else (Inr (map_of (map (\<lambda>i. (i, demo_quote)) ids)), Suc w)),
      ltp = (\<lambda>ids w. (Inl (KiteException ''no spot''), Suc w))\<rparr>"

text \<open>
  A quote whose depth, if present, has no empty list of levels: reading the first level
  (lines 419 and 420) does not raise.
\<close>

definition levels_ok :: "quote_data \<Rightarrow> bool" where
  "levels_ok q =
     (case q_depth q of
        None \<Rightarrow> True
      | Some d \<Rightarrow> buy d \<noteq> Some [] \<and> sell d \<noteq> Some [])"

section \<open>Evaluating the model on the demo data\<close>

lemmas demo_simps =
  get_option_chain_def demo_kite_def demo_catalog_def upper_def upper_char_def
  symbol_options_def filter_expiry_def select_expiry_def expiries_of_def List.map_filter_def
  fetch_quotes_def range_step_def batch_size_def quote_batch_def str_int_def str_nat.simps
  digit_char_def digit_val_def fetch_spot_def chain_step_def make_leg_def top_price_def
  get_or_def demo_quote_def new_row_def put_leg_def isoformat_def zfill_def no_quote_def
  demo_leg_def demo_response_def less_eq_date_def less_date_def

lemma demo_run:
  "get_option_chain demo_kite (Date 2024 1 20) (Some ''nifty'') None 0
     = ((Option_chain demo_response, 200), 3)"
  by (simp add: demo_simps)

section \<open>The chain is sorted by strike\<close>

lemma map_entry_strike:
  "\<forall>p \<in> set xs. row_strike (snd p) = fst p \<Longrightarrow> (\<And>r. row_strike (f r) = row_strike r) \<Longrightarrow>
   \<forall>p \<in> set (AList.map_entry s f xs). row_strike (snd p) = fst p"
  by (induction xs) auto

lemma row_strike_put_leg: "row_strike (put_leg t l r) = row_strike r"
  by (simp add: put_leg_def)

lemma chain_inv_map_entry:
  "chain_inv chain \<Longrightarrow> chain_inv (AList.map_entry s (put_leg t l) chain)"
  unfolding chain_inv_def
  using distinct_map_entry [of chain s "put_leg t l"]
    map_entry_strike [of chain "put_leg t l" s]
  by (simp add: row_strike_put_leg)

lemma chain_inv_new:
  "chain_inv chain \<Longrightarrow> s \<notin> fst ` set chain \<Longrightarrow> chain_inv (chain @ [(s, new_row s)])"
  unfolding chain_inv_def by (auto simp: new_row_def)

lemma chain_step_inv:
  assumes "chain_step q opt (chain, e) = Inr (chain', e')" "chain_inv chain"
  shows "chain_inv chain'"
  using assms
  unfolding chain_step_def Let_def
  by (auto split: sum.splits if_splits intro!: chain_inv_map_entry chain_inv_new)

lemma build_chain_inv:
  "build_chain q opts (chain, e) = Inr (chain', e') \<Longrightarrow> chain_inv chain \<Longrightarrow> chain_inv chain'"
proof (induction opts arbitrary: chain e)
  case Nil
  then show ?case by simp
next
  case (Cons a opts)
  then show ?case
    by (auto split: sum.splits dest: chain_step_inv)
qed

lemma chain_inv_strikes: "chain_inv chain \<Longrightarrow> map row_strike (map snd chain) = map fst chain"
  unfolding chain_inv_def by (induction chain) auto

lemma distinct_map_insort_key:
  "distinct (map f (insort_key f x xs)) \<longleftrightarrow> f x \<notin> f ` set xs \<and> distinct (map f xs)"
  by (induction xs) (auto simp: set_insort_key)

lemma distinct_map_sort_key: "distinct (map f (sort_key f xs)) \<longleftrightarrow> distinct (map f xs)"
  by (induction xs) (auto simp: distinct_map_insort_key)

lemma sorted_rows:
  assumes "chain_inv chain"
  shows "sorted_wrt (<) (map row_strike (sort_key row_strike (map snd chain)))"
proof -
  have d: "distinct (map row_strike (map snd chain))"
    unfolding chain_inv_strikes[OF assms] using assms by (simp add: chain_inv_def)
  then have "distinct (map row_strike (sort_key row_strike (map snd chain)))"
    by (simp only: distinct_map_sort_key)
  then show ?thesis
    by (simp only: strict_sorted_iff sorted_sort_key simp_thms)
qed

lemma chain_response_built:
  assumes "get_option_chain kite today symbol expiry_str w = ((Option_chain resp, status), w')"
  shows "\<exists>insts w1 opts all_quotes w2 chain e.
           instruments kite ''NFO'' w = (Inr insts, w1)
           \<and> filter_expiry today expiry_str (symbol_options (upper (the symbol)) insts) = Inr opts
           \<and> fetch_quotes kite opts w1 = (all_quotes, w2)
           \<and> build_chain all_quotes opts ([], None) = Inr (chain, e)
           \<and> r_chain resp = sort_key row_strike (map snd chain)
           \<and> status = 200"
  using assms unfolding get_option_chain_def Let_def
  by (fastforce split: if_splits sum.splits prod.splits)

text \<open>
  C1. Whenever the builder answers with a chain, the strikes of its rows are strictly
  ascending, so no strike occurs in two rows.
\<close>

theorem chain_sorted_by_strike:
  assumes "get_option_chain kite today symbol expiry_str w = ((Option_chain resp, status), w')"
  shows "sorted_wrt (<) (map row_strike (r_chain resp))
         \<and> distinct (map row_strike (r_chain resp))"
proof -
  from chain_response_built [OF assms] obtain aq :: "string \<rightharpoonup> quote_data"
    and opts chain e where
    b: "build_chain aq opts ([], None) = Inr (chain, e)"
    and r: "r_chain resp = sort_key row_strike (map snd chain)"
    by blast
  have "chain_inv []" by (simp add: chain_inv_def)
  with b have "chain_inv chain" by (rule build_chain_inv)
  then have "sorted_wrt (<) (map row_strike (r_chain resp))"
    unfolding r by (rule sorted_rows)
  then show ?thesis by (simp add: strict_sorted_iff)
qed

theorem chain_sorted_by_strike_witness:
  "get_option_chain demo_kite (Date 2024 1 20) (Some ''nifty'') None 0
     = ((Option_chain demo_response, 200), 3)
   \<and> map row_strike (r_chain demo_response) = [209, 210]
   \<and> sorted_wrt (<) (map row_strike (r_chain demo_response))
   \<and> distinct (map row_strike (r_chain demo_response))"
  using chain_sorted_by_strike [OF demo_run] demo_run
  by (simp add: demo_response_def)

section \<open>Selection of the expiry\<close>

lemma set_map_filter: "set (List.map_filter f xs) = {y. \<exists>x \<in> set xs. f x = Some y}"
  by (induction xs) (auto split: option.splits)

lemma map_filter_empty: "List.map_filter f xs = [] \<longleftrightarrow> (\<forall>x \<in> set xs. f x = None)"
  by (induction xs) (auto split: option.splits)

lemma set_expiries_of: "set (expiries_of opts) = {e. \<exists>opt \<in> set opts. expiry opt = Some e}"
  by (simp add: expiries_of_def set_map_filter)

lemma expiries_of_empty: "expiries_of opts = [] \<longleftrightarrow> (\<forall>opt \<in> set opts. expiry opt = None)"
proof -
  have "expiries_of opts = [] \<longleftrightarrow> set (expiries_of opts) = {}" by simp
  also have "\<dots> \<longleftrightarrow> set (List.map_filter expiry opts) = {}" by (simp add: expiries_of_def)
  also have "\<dots> \<longleftrightarrow> List.map_filter expiry opts = []" by simp
  finally show ?thesis by (simp add: map_filter_empty)
qed

lemma sorted_expiries_of: "sorted (expiries_of opts)"
  by (simp add: expiries_of_def)

lemma first_of_filter_sorted:
  assumes "sorted xs" "filter P xs \<noteq> []"
  shows "filter P xs ! 0 \<in> set xs \<and> P (filter P xs ! 0) \<and> (\<forall>y \<in> set xs. P y \<longrightarrow> filter P xs ! 0 \<le> y)"
proof -
  obtain z zs where eq: "filter P xs = z # zs"
    using assms(2) by (cases "filter P xs") auto
  have "z \<in> set (filter P xs)" by (simp add: eq)
  then have m: "z \<in> set xs" "P z" by auto
  have "sorted (filter P xs)" using assms(1) by (rule sorted_wrt_filter)
  then have "\<forall>y \<in> set zs. z \<le> y" by (simp add: eq)
  moreover have "\<And>y. y \<in> set xs \<Longrightarrow> P y \<Longrightarrow> y = z \<or> y \<in> set zs"
  proof -
    fix y assume "y \<in> set xs" "P y"
    then have "y \<in> set (filter P xs)" by simp
    then show "y = z \<or> y \<in> set zs" by (simp add: eq)
  qed
  ultimately have "\<forall>y \<in> set xs. P y \<longrightarrow> z \<le> y" by auto
  with m show ?thesis by (simp add: eq)
qed

lemma last_of_sorted:
  assumes "sorted xs" "xs \<noteq> []"
  shows "last xs \<in> set xs \<and> (\<forall>y \<in> set xs. y \<le> last xs)"
  using assms by (induction xs) (auto)

lemma select_expiry_None:
  "select_expiry today opts = None \<longleftrightarrow> (\<forall>opt \<in> set opts. expiry opt = None)"
proof -
  have "select_expiry today opts = None \<longleftrightarrow> expiries_of opts = []"
    by (cases "expiries_of opts = []") (simp_all add: select_expiry_def Let_def)
  then show ?thesis by (simp only: expiries_of_empty)
qed

lemma select_expiry_Some:
  assumes "select_expiry today opts = Some e"
  shows "(\<exists>opt \<in> set opts. expiry opt = Some e)
         \<and> (if \<exists>opt \<in> set opts. \<exists>d. expiry opt = Some d \<and> today \<le> d
            then today \<le> e \<and> (\<forall>opt \<in> set opts. \<forall>d. expiry opt = Some d \<and> today \<le> d \<longrightarrow> e \<le> d)
            else (\<forall>opt \<in> set opts. \<forall>d. expiry opt = Some d \<longrightarrow> d \<le> e))"
proof (cases "[x \<leftarrow> expiries_of opts. today \<le> x] = []")
  case True
  then have none: "\<not> (\<exists>opt \<in> set opts. \<exists>d. expiry opt = Some d \<and> today \<le> d)"
    using set_expiries_of [of opts] by (auto simp: filter_empty_conv)
  from True assms have ne: "expiries_of opts \<noteq> []" and e: "e = last (expiries_of opts)"
    by (auto simp: select_expiry_def Let_def split: if_splits)
  from last_of_sorted [OF sorted_expiries_of ne] e
  have "e \<in> set (expiries_of opts)" "\<forall>y \<in> set (expiries_of opts). y \<le> e" by auto
  then show ?thesis using none by (auto simp: set_expiries_of)
next
  case False
  then have e: "e = [x \<leftarrow> expiries_of opts. today \<le> x] ! 0"
    using assms by (auto simp: select_expiry_def Let_def split: if_splits)
  from first_of_filter_sorted [OF sorted_expiries_of False] e
  have "e \<in> set (expiries_of opts)" "today \<le> e"
    "\<forall>y \<in> set (expiries_of opts). today \<le> y \<longrightarrow> e \<le> y" by auto
  then show ?thesis by (auto simp: set_expiries_of)
qed

text \<open>
  C2, as amended. With no expiry supplied (absent or the empty string): when at least one
  contract has an expiry date, the builder selects the earliest expiry on or after today,
  or the latest expiry when none is on or after today, and keeps exactly the contracts
  of the selected expiry; when no contract has an expiry date, no expiry is selected and
  every contract is kept.
\<close>

theorem nearest_expiry_selected:
  assumes "expiry_str = None \<or> expiry_str = Some []"
  shows "if \<forall>opt \<in> set options. expiry opt = None
         then select_expiry today options = None
              \<and> filter_expiry today expiry_str options = Inr options
         else \<exists>e. select_expiry today options = Some e
                \<and> (\<exists>opt \<in> set options. expiry opt = Some e)
                \<and> (if \<exists>opt \<in> set options. \<exists>d. expiry opt = Some d \<and> today \<le> d
                   then today \<le> e
                        \<and> (\<forall>opt \<in> set options. \<forall>d. expiry opt = Some d \<and> today \<le> d \<longrightarrow> e \<le> d)
                   else (\<forall>opt \<in> set options. \<forall>d. expiry opt = Some d \<longrightarrow> d \<le> e))
                \<and> filter_expiry today expiry_str options
                    = Inr [opt \<leftarrow> options. expiry opt = Some e]"
proof (cases "\<forall>opt \<in> set options. expiry opt = None")
  case True
  then have "select_expiry today options = None" by (simp add: select_expiry_None)
  then show ?thesis using True assms by (auto simp: filter_expiry_def)
next
  case False
  then obtain e where e: "select_expiry today options = Some e"
    using select_expiry_None [of today options] by (cases "select_expiry today options") auto
  have f: "filter_expiry today expiry_str options = Inr [opt \<leftarrow> options. expiry opt = Some e]"
    using assms e by (auto simp: filter_expiry_def)
  from select_expiry_Some [OF e] e f False show ?thesis by simp
qed

theorem nearest_expiry_selected_witness:
  "(None = (None :: string option) \<or> None = Some [])
   \<and> select_expiry (Date 2024 1 20) (symbol_options ''NIFTY'' demo_catalog) = Some (Date 2024 1 25)
   \<and> filter_expiry (Date 2024 1 20) None (symbol_options ''NIFTY'' demo_catalog)
       = Inr (take 3 demo_catalog)
   \<and> select_expiry (Date 2024 3 1) (symbol_options ''NIFTY'' demo_catalog) = Some (Date 2024 2 29)
   \<and> filter_expiry (Date 2024 3 1) None (symbol_options ''NIFTY'' demo_catalog)
       = Inr [demo_catalog ! 4]"
proof -
  have opts: "symbol_options ''NIFTY'' demo_catalog = take 5 demo_catalog"
    by (simp add: demo_simps)
  have "select_expiry (Date 2024 1 20) (take 5 demo_catalog) = Some (Date 2024 1 25)"
    and "filter_expiry (Date 2024 1 20) None (take 5 demo_catalog) = Inr (take 3 demo_catalog)"
    and "select_expiry (Date 2024 3 1) (take 5 demo_catalog) = Some (Date 2024 2 29)"
    and "filter_expiry (Date 2024 3 1) None (take 5 demo_catalog) = Inr [demo_catalog ! 4]"
    by (simp_all add: demo_simps)
  with opts
    nearest_expiry_selected [of None "symbol_options ''NIFTY'' demo_catalog" "Date 2024 1 20"]
  show ?thesis by simp
qed

text \<open>
  The claim as stated fails for a contract without an expiry date: no expiry is selected,
  and the contract is kept.
\<close>

theorem nearest_expiry_counterexample:
  "expiry undated_option = None
   \<and> select_expiry (Date 2024 1 20) [undated_option] = None
   \<and> filter_expiry (Date 2024 1 20) None [undated_option] = Inr [undated_option]"
  by (simp add: undated_option_def demo_simps)

section \<open>The scanner and the selection of the builder\<close>

lemma nearest_loop_snoc:
  "nearest_loop today (fs @ [f]) m =
     (case nearest_loop today fs m of Inl e \<Rightarrow> Inl e | Inr m' \<Rightarrow> nearest_step today f m')"
  by (induction fs arbitrary: m) (auto split: sum.splits)

lemma upcoming_snoc:
  "upcoming today sy (fs @ [f]) =
     (if upper (name f) = sy \<and> is_upcoming today f then upcoming today sy fs @ [f]
      else upcoming today sy fs)"
  by (simp add: upcoming_def)

lemma nearest_step_skip:
  "\<not> is_upcoming today f \<Longrightarrow> nearest_step today f m = Inr m"
  by (auto simp: nearest_step_def is_upcoming_def Let_def split: option.splits)

lemma nearest_ok_first:
  "expiry f = Some d \<Longrightarrow> nearest_ok today [f] (Some f)"
  by (simp add: nearest_ok_def)

lemma nearest_ok_replace:
  assumes "nearest_ok today cands (Some g)" "expiry g = Some kept" "expiry f = Some d" "d < kept"
  shows "nearest_ok today (cands @ [f]) (Some f)"
  using assms unfolding nearest_ok_def by (auto split: if_splits) 

lemma nearest_ok_keep:
  assumes "nearest_ok today cands (Some g)" "expiry g = Some kept" "expiry f = Some d" "\<not> d < kept"
  shows "nearest_ok today (cands @ [f]) (Some g)"
  using assms unfolding nearest_ok_def by (auto split: if_splits)

lemma nearest_step_inv:
  assumes "nearest_inv today fs m"
  shows "\<exists>m'. nearest_step today f m = Inr m' \<and> nearest_inv today (fs @ [f]) m'"
proof (cases "is_upcoming today f")
  case False
  then show ?thesis using assms
    by (simp add: nearest_step_skip nearest_inv_def upcoming_snoc)
next
  case True
  then obtain d where d: "expiry f = Some d" "today \<le> d"
    by (auto simp: is_upcoming_def split: option.splits)
  let ?s = "upper (name f)"
  have ok: "nearest_ok today (upcoming today ?s fs) (m ?s)"
    using assms by (simp add: nearest_inv_def)
  have others: "\<And>m' sy. sy \<noteq> ?s \<Longrightarrow> m' sy = m sy \<Longrightarrow> nearest_ok today (upcoming today sy (fs @ [f])) (m' sy)"
    using assms by (simp add: nearest_inv_def upcoming_snoc)
  have same: "upcoming today ?s (fs @ [f]) = upcoming today ?s fs @ [f]"
    using True by (simp add: upcoming_snoc)
  show ?thesis
  proof (cases "m ?s")
    case None
    then have empty: "upcoming today ?s fs = []"
      using ok by (auto simp: nearest_ok_def split: if_splits)
    have step: "nearest_step today f m = Inr (m(?s \<mapsto> f))"
      using d None by (simp add: nearest_step_def Let_def)
    have "nearest_ok today (upcoming today sy (fs @ [f])) ((m(?s \<mapsto> f)) sy)" for sy
    proof (cases "sy = ?s")
      case True
      then show ?thesis using nearest_ok_first [OF d(1)] same empty by simp
    next
      case False
      then show ?thesis using others [of sy "m(?s \<mapsto> f)"] by simp
    qed
    then show ?thesis using step by (simp add: nearest_inv_def)
  next
    case (Some g)
    then obtain kept where kept: "expiry g = Some kept"
      using ok by (auto simp: nearest_ok_def split: if_splits)
    show ?thesis
    proof (cases "d < kept")
      case True
      then have step: "nearest_step today f m = Inr (m(?s \<mapsto> f))"
        using d Some kept by (simp add: nearest_step_def Let_def)
      have "nearest_ok today (upcoming today sy (fs @ [f])) ((m(?s \<mapsto> f)) sy)" for sy
      proof (cases "sy = ?s")
        case True
        then show ?thesis
          using nearest_ok_replace [OF ok [unfolded Some] kept d(1) \<open>d < kept\<close>] same by simp
      next
        case False
        then show ?thesis using others [of sy "m(?s \<mapsto> f)"] by simp
      qed
      then show ?thesis using step by (simp add: nearest_inv_def)
    next
      case False
      then have step: "nearest_step today f m = Inr m"
        using d Some kept by (simp add: nearest_step_def Let_def)
      have "nearest_ok today (upcoming today sy (fs @ [f])) (m sy)" for sy
      proof (cases "sy = ?s")
        case True
        then show ?thesis
          using nearest_ok_keep [OF ok [unfolded Some] kept d(1) False] same Some by simp
      next
        case False
        then show ?thesis using others [of sy m] by simp
      qed
      then show ?thesis using step by (simp add: nearest_inv_def)
    qed
  qed
qed

lemma nearest_loop_inv:
  "\<exists>m. nearest_loop today fs Map.empty = Inr m \<and> nearest_inv today fs m"
proof (induction fs rule: rev_induct)
  case Nil
  then show ?case by (simp add: nearest_inv_def nearest_ok_def upcoming_def)
next
  case (snoc f fs)
  then obtain m where m: "nearest_loop today fs Map.empty = Inr m" "nearest_inv today fs m"
    by blast
  from nearest_step_inv [OF m(2), of f] m(1) show ?case
    by (simp add: nearest_loop_snoc)
qed

lemma upcoming_of_symbol:
  "upcoming today sy fs = filter (is_upcoming today) [f \<leftarrow> fs. upper (name f) = sy]"
  by (induction fs) (auto simp: upcoming_def)

lemma nearest_ok_select:
  assumes ok: "nearest_ok today (filter (is_upcoming today) futs) kept"
    and ne: "filter (is_upcoming today) futs \<noteq> []"
  shows "\<exists>g. kept = Some g \<and> g \<in> set futs \<and> is_upcoming today g
             \<and> expiry g = select_expiry today futs"
proof -
  from ok ne obtain g d where g: "kept = Some g" "g \<in> set (filter (is_upcoming today) futs)"
    "expiry g = Some d"
    and least: "\<forall>f \<in> set (filter (is_upcoming today) futs). \<forall>d'. expiry f = Some d' \<longrightarrow> d \<le> d'"
    unfolding nearest_ok_def by (auto split: if_splits)
  from g have gin: "g \<in> set futs" and gup: "is_upcoming today g" by auto
  from gup g(3) have td: "today \<le> d" by (simp add: is_upcoming_def)
  have ex: "\<exists>opt \<in> set futs. \<exists>d. expiry opt = Some d \<and> today \<le> d"
    using gin g(3) td by blast
  then have "select_expiry today futs \<noteq> None"
    by (auto simp: select_expiry_None)
  then obtain e where e: "select_expiry today futs = Some e" by auto
  from select_expiry_Some [OF e] ex
  obtain opt where opt: "opt \<in> set futs" "expiry opt = Some e"
    and te: "today \<le> e"
    and emin: "\<forall>opt \<in> set futs. \<forall>d. expiry opt = Some d \<and> today \<le> d \<longrightarrow> e \<le> d"
    by auto
  from emin gin g(3) td have "e \<le> d" by blast
  moreover have "opt \<in> set (filter (is_upcoming today) futs)"
    using opt te by (simp add: is_upcoming_def)
  with least opt(2) have "d \<le> e" by blast
  ultimately have "d = e" by simp
  with g gin gup e show ?thesis by simp
qed

text \<open>
  C8, as amended. The scanner never fails in its selection loop. For a symbol with a
  future that expires on or after today it keeps a future of that symbol whose expiry
  is the one the option chain builder's selection gives on the symbol's futures, the
  earliest on or after today. For a symbol without such a future it keeps nothing:
  there is no fallback to the latest past expiry.
\<close>

theorem scanner_nearest_future:
  "\<exists>fbs. scanner_nearest today target_symbols nfo = Inr fbs
     \<and> (\<forall>sy. if upcoming today sy (futures_instruments target_symbols nfo) = []
             then fbs sy = None
             else (\<exists>g. fbs sy = Some g
                     \<and> g \<in> set (futures_instruments target_symbols nfo)
                     \<and> upper (name g) = sy
                     \<and> expiry g = select_expiry today
                          [f \<leftarrow> futures_instruments target_symbols nfo. upper (name f) = sy]))"
proof -
  let ?fi = "futures_instruments target_symbols nfo"
  from nearest_loop_inv [of today ?fi] obtain m where
    run: "nearest_loop today ?fi Map.empty = Inr m" and inv: "nearest_inv today ?fi m"
    by blast
  have "if upcoming today sy ?fi = [] then m sy = None
        else (\<exists>g. m sy = Some g \<and> g \<in> set ?fi \<and> upper (name g) = sy
                \<and> expiry g = select_expiry today [f \<leftarrow> ?fi. upper (name f) = sy])" for sy
  proof (cases "upcoming today sy ?fi = []")
    case True
    then show ?thesis using inv by (simp add: nearest_inv_def nearest_ok_def)
  next
    case False
    from inv have "nearest_ok today (upcoming today sy ?fi) (m sy)"
      by (simp add: nearest_inv_def)
    from nearest_ok_select [OF this [unfolded upcoming_of_symbol] False [unfolded upcoming_of_symbol]]
    show ?thesis using False by auto
  qed
  with run show ?thesis by (simp add: scanner_nearest_def)
qed

theorem scanner_nearest_future_witness:
  "\<exists>fbs. scanner_nearest (Date 2024 1 20) [''NIFTY''] demo_catalog = Inr fbs
     \<and> fbs ''NIFTY'' = Some (demo_catalog ! 7)
     \<and> expiry (demo_catalog ! 7) = Some (Date 2024 1 25)
     \<and> select_expiry (Date 2024 1 20)
           [f \<leftarrow> futures_instruments [''NIFTY''] demo_catalog. upper (name f) = ''NIFTY'']
         = Some (Date 2024 1 25)"
proof -
  have "\<exists>fbs. scanner_nearest (Date 2024 1 20) [''NIFTY''] demo_catalog = Inr fbs
          \<and> fbs ''NIFTY'' = Some (demo_catalog ! 7)"
    and "expiry (demo_catalog ! 7) = Some (Date 2024 1 25)"
    and "select_expiry (Date 2024 1 20)
           [f \<leftarrow> futures_instruments [''NIFTY''] demo_catalog. upper (name f) = ''NIFTY'']
         = Some (Date 2024 1 25)"
    by (simp_all add: scanner_nearest_def futures_instruments_def nearest_step_def Let_def
          demo_simps)
  with scanner_nearest_future [of "Date 2024 1 20" "[''NIFTY'']" demo_catalog]
  show ?thesis by simp
qed

text \<open>
  The claim as stated fails when the only future of a symbol has expired: the scanner
  keeps nothing for the symbol, the builder's selection falls back to the past expiry.
\<close>

theorem scanner_nearest_counterexample:
  "scanner_nearest (Date 2024 1 20) [''NIFTY''] [expired_future] = Inr Map.empty
   \<and> select_expiry (Date 2024 1 20)
         [f \<leftarrow> futures_instruments [''NIFTY''] [expired_future]. upper (name f) = ''NIFTY'']
       = Some (Date 2023 12 28)"
  by (simp add: expired_future_def scanner_nearest_def futures_instruments_def nearest_step_def
        Let_def demo_simps)

section \<open>An expiry that does not parse\<close>

text \<open>
  C5, as amended. A request whose expiry string is not empty and does not parse as a
  date never gets a chain and never gets a 400 for the expiry: the checks that come
  first answer as usual (400 for a missing symbol, 500 for a failed catalogue fetch,
  404 for a symbol without options), and otherwise the parser's \<^verbatim>\<open>ValueError\<close> reaches
  the handler of line 437, which answers 500 with the exception's text.
\<close>

theorem bad_expiry_answers_500:
  assumes "expiry_str = Some s" "s \<noteq> []" "strptime s = None"
  shows "get_option_chain kite today symbol expiry_str w =
     (if symbol = None \<or> symbol = Some []
      then ((Error_message ''symbol parameter required'', 400), w)
      else (case instruments kite ''NFO'' w of
              (Inl e, w1) \<Rightarrow> ((Error_exception e, 500), w1)
            | (Inr insts, w1) \<Rightarrow>
                if symbol_options (upper (the symbol)) insts = []
                then ((Error_message (''No options found for '' @ the symbol), 404), w1)
                else ((Error_exception ValueError, 500), w1)))"
  using assms
  by (simp add: get_option_chain_def filter_expiry_def Let_def split: prod.splits sum.splits)

theorem bad_expiry_answers_500_witness:
  "Some ''2024-02-30'' = Some ''2024-02-30'' \<and> ''2024-02-30'' \<noteq> []
   \<and> strptime ''2024-02-30'' = None
   \<and> get_option_chain demo_kite (Date 2024 1 20) (Some ''nifty'') (Some ''2024-02-30'') 0
       = ((Error_exception ValueError, 500), 1)"
proof -
  have p: "strptime ''2024-02-30'' = None"
    by (simp add: digit_val_def make_date_def days_in_month_def is_leap_def)
  have o: "symbol_options (upper ''nifty'') demo_catalog \<noteq> []"
    by (simp add: demo_simps)
  from bad_expiry_answers_500 [OF refl _ p, of demo_kite "Date 2024 1 20" "Some ''nifty''" 0] o p
  show ?thesis by (simp add: demo_kite_def)
qed

text \<open>The claim as stated fails: an expiry that is no date is answered with 500, not 400.\<close>

theorem bad_expiry_counterexample:
  "strptime ''tomorrow'' = None
   \<and> get_option_chain demo_kite (Date 2024 1 20) (Some ''nifty'') (Some ''tomorrow'') 0
       = ((Error_exception ValueError, 500), 1)"
  by (simp add: demo_simps)

section \<open>The live tick buffer\<close>

lemma parse_tokens_error: "parse_tokens ts = Inl e \<Longrightarrow> e = ValueError"
  by (induction ts) (auto split: if_splits option.splits sum.splits)

lemma unsubscribe_state:
  "fst (snd (unsubscribe_live lib st w)) = st\<lparr>kws := None, live_ticks := Map.empty\<rparr>"
  by (cases "kws st") (auto simp: unsubscribe_live_def split: prod.splits option.splits)

lemma get_live_ticks_empty:
  "live_ticks st = Map.empty \<Longrightarrow>
   (case get_live_ticks tokens st of Inr m \<Rightarrow> m = Map.empty | Inl e \<Rightarrow> e = ValueError)"
  by (auto simp: get_live_ticks_def Let_def split: sum.splits dest: parse_tokens_error)

text \<open>
  C7. After \<^verbatim>\<open>unsubscribe_live\<close> the buffer has no entry for any token, whatever the
  buffer held and whether or not closing the connection raised; a poll without tokens
  returns the empty mapping, and a poll with tokens returns the empty mapping too
  (or fails on a token that is no integer).
\<close>

theorem unsubscribe_clears_buffer:
  "fst (unsubscribe_live lib st w) = (Unsubscribed, 200)
   \<and> fst (snd (unsubscribe_live lib st w)) = st\<lparr>kws := None, live_ticks := Map.empty\<rparr>
   \<and> live_ticks (fst (snd (unsubscribe_live lib st w))) = Map.empty
   \<and> get_live_ticks None (fst (snd (unsubscribe_live lib st w))) = Inr Map.empty
   \<and> (case get_live_ticks tokens (fst (snd (unsubscribe_live lib st w))) of
         Inr m \<Rightarrow> m = Map.empty
       | Inl e \<Rightarrow> e = ValueError)"
proof -
  have r: "fst (unsubscribe_live lib st w) = (Unsubscribed, 200)"
    by (auto simp: unsubscribe_live_def split: prod.splits option.splits)
  have e: "live_ticks (fst (snd (unsubscribe_live lib st w))) = Map.empty"
    by (simp add: unsubscribe_state)
  have p: "get_live_ticks None (fst (snd (unsubscribe_live lib st w))) = Inr Map.empty"
    by (simp add: get_live_ticks_def get_or_def e)
  from r e p get_live_ticks_empty [OF e] unsubscribe_state show ?thesis by simp
qed

theorem unsubscribe_clears_buffer_witness:
  "live_ticks busy_state (Some 200) \<noteq> None
   \<and> fst (ws_close failing_close (the (kws busy_state)) 0) = Some (KiteException ''closed'')
   \<and> live_ticks (fst (snd (unsubscribe_live failing_close busy_state 0))) = Map.empty
   \<and> get_live_ticks None (fst (snd (unsubscribe_live failing_close busy_state 0))) = Inr Map.empty"
proof -
  have "live_ticks busy_state (Some 200) \<noteq> None"
    and "fst (ws_close failing_close (the (kws busy_state)) 0) = Some (KiteException ''closed'')"
    by (simp_all add: busy_state_def failing_close_def)
  with unsubscribe_clears_buffer [of failing_close busy_state 0 None]
  show ?thesis by blast
qed

lemma subscribe_buffer:
  "live_ticks (fst (snd (subscribe_live lib api_key access_token body st w))) = live_ticks st"
  by (auto simp: subscribe_live_def Let_def split: prod.splits option.splits)

lemma get_live_ticks_cong:
  "live_ticks st' = live_ticks st \<Longrightarrow> get_live_ticks tokens st' = get_live_ticks tokens st"
  by (auto simp: get_live_ticks_def Let_def split: sum.splits)

lemma on_tick_other:
  "t_instrument_token tick \<noteq> k \<Longrightarrow> live_ticks (on_tick now tick st) k = live_ticks st k"
  by (simp add: on_tick_def Let_def)

lemma on_ticks_other:
  "k \<notin> t_instrument_token ` snd ` set ticks \<Longrightarrow> live_ticks (on_ticks ticks st) k = live_ticks st k"
  unfolding on_ticks_def
  by (induction ticks arbitrary: st) (auto simp: on_tick_other)

text \<open>
  C10. \<^verbatim>\<open>subscribe_live\<close> leaves the buffer as it was, on every path: the entries of an
  earlier subscription stay visible to a poll, also for tokens outside the new
  subscription, and a later batch of ticks changes only the entries of its own tokens.
\<close>

theorem subscribe_keeps_buffer:
  "live_ticks (fst (snd (subscribe_live lib api_key access_token body st w))) = live_ticks st
   \<and> get_live_ticks tokens (fst (snd (subscribe_live lib api_key access_token body st w)))
       = get_live_ticks tokens st
   \<and> (k \<notin> t_instrument_token ` snd ` set ticks \<longrightarrow>
        live_ticks (on_ticks ticks (fst (snd (subscribe_live lib api_key access_token body st w)))) k
          = live_ticks st k)"
  using get_live_ticks_cong [OF subscribe_buffer]
  by (simp add: subscribe_buffer on_ticks_other)

theorem subscribe_keeps_buffer_witness:
  "Some 200 \<notin> t_instrument_token ` snd ` set [(''t2'', tick_300)]
   \<and> live_ticks busy_state (Some 200) \<noteq> None
   \<and> live_ticks
         (on_ticks [(''t2'', tick_300)]
            (fst (snd (subscribe_live failing_close ''key'' ''tok''
                         (Some \<lparr>b_tokens = Some [300], b_mode = Some ''ltp''\<rparr>) busy_state 0))))
         (Some 200)
       = live_ticks busy_state (Some 200)"
proof -
  have h: "Some 200 \<notin> t_instrument_token ` snd ` set [(''t2'', tick_300)]"
    by (simp add: tick_300_def)
  have b: "live_ticks busy_state (Some 200) \<noteq> None"
    by (simp add: busy_state_def)
  from subscribe_keeps_buffer [of failing_close "''key''" "''tok''"
      "Some \<lparr>b_tokens = Some [300], b_mode = Some ''ltp''\<rparr>" busy_state 0 None "Some 200"
      "[(''t2'', tick_300)]"] h b
  show ?thesis by blast
qed

section \<open>Rows and legs of the chain\<close>

lemma build_chain_snoc:
  "build_chain q (xs @ [x]) st =
     (case build_chain q xs st of Inl e \<Rightarrow> Inl e | Inr st' \<Rightarrow> chain_step q x st')"
  by (induction xs arbitrary: st) (auto split: sum.splits)

lemma set_map_entry_pair:
  "distinct (map fst xs) \<Longrightarrow>
   (a, b) \<in> set (AList.map_entry k f xs) \<longleftrightarrow>
     (a \<noteq> k \<and> (a, b) \<in> set xs) \<or> (a = k \<and> (\<exists>r. (k, r) \<in> set xs \<and> b = f r))"
  by (induction xs) (auto simp: rev_image_eqI)

lemma set_map_entry:
  "distinct (map fst xs) \<Longrightarrow>
   p \<in> set (AList.map_entry k f xs) \<longleftrightarrow>
     (fst p \<noteq> k \<and> p \<in> set xs) \<or> (fst p = k \<and> (\<exists>r. (k, r) \<in> set xs \<and> snd p = f r))"
  using set_map_entry_pair [of xs "fst p" "snd p" k f] by simp

lemma matches_snoc:
  "matches (opts @ [opt]) s t =
     (if strike opt = s \<and> instrument_type opt = t then matches opts s t @ [opt] else matches opts s t)"
  by (simp add: matches_def)

lemma matches_empty: "s \<notin> strike ` set opts \<Longrightarrow> matches opts s t = []"
  by (auto simp: matches_def filter_empty_conv)

lemma slot_ok_new: "s \<notin> strike ` set opts \<Longrightarrow> slot_ok q opts s t (legs (new_row s) t)"
  by (simp add: slot_ok_def matches_empty)

lemma slot_ok_other:
  "slot_ok q opts s t slot \<Longrightarrow> \<not> (strike opt = s \<and> instrument_type opt = t) \<Longrightarrow>
   slot_ok q (opts @ [opt]) s t slot"
  by (auto simp: slot_ok_def matches_snoc)

lemma slot_ok_put:
  "make_leg (quote_for q opt) opt = Inr l \<Longrightarrow>
   slot_ok q (opts @ [opt]) (strike opt) (instrument_type opt) (Some (Some l))"
  by (simp add: slot_ok_def matches_snoc)

lemma legs_put_leg: "legs (put_leg t l r) t' = (if t' = t then Some (Some l) else legs r t')"
  by (simp add: put_leg_def)

lemma chain_step_rows_ok:
  assumes ok: "rows_ok q opts chain"
    and step: "chain_step q opt (chain, e) = Inr (chain', e')"
  shows "rows_ok q (opts @ [opt]) chain'"
proof -
  let ?s = "strike opt" and ?t = "instrument_type opt"
  define chain1 where "chain1 = (if ?s \<notin> fst ` set chain then chain @ [(?s, new_row ?s)] else chain)"
  from step obtain l where l: "make_leg (quote_for q opt) opt = Inr l"
    and c': "chain' = AList.map_entry ?s (put_leg ?t l) chain1"
    by (auto simp: chain_step_def Let_def quote_for_def chain1_def split: sum.splits)
  from ok have inv: "chain_inv chain" and keys: "fst ` set chain = strike ` set opts"
    and slots: "\<And>p t. p \<in> set chain \<Longrightarrow> slot_ok q opts (fst p) t (legs (snd p) t)"
    by (auto simp: rows_ok_def)
  have inv1: "chain_inv chain1"
    using inv by (simp add: chain1_def chain_inv_new)
  have keys1: "fst ` set chain1 = insert ?s (fst ` set chain)"
    by (auto simp: chain1_def)
  have slots1: "slot_ok q opts (fst p) t (legs (snd p) t)" if "p \<in> set chain1" for p t
  proof (cases "p \<in> set chain")
    case True
    then show ?thesis by (rule slots)
  next
    case False
    with that have "p = (?s, new_row ?s)" and "?s \<notin> fst ` set chain"
      by (auto simp: chain1_def split: if_splits)
    then show ?thesis using keys by (simp add: slot_ok_new)
  qed
  have d1: "distinct (map fst chain1)" using inv1 by (simp add: chain_inv_def)
  have "chain_inv chain'"
    unfolding c' using inv1 by (rule chain_inv_map_entry)
  moreover have "fst ` set chain' = strike ` set (opts @ [opt])"
    unfolding c' by (simp add: dom_map_entry keys1 keys)
  moreover have "slot_ok q (opts @ [opt]) (fst p) t (legs (snd p) t)" if p: "p \<in> set chain'" for p t
  proof (cases "fst p = ?s")
    case False
    with p have "p \<in> set chain1" by (simp add: c' set_map_entry [OF d1])
    from slots1 [OF this] False show ?thesis by (simp add: slot_ok_other)
  next
    case True
    with p obtain r where r: "(?s, r) \<in> set chain1" "snd p = put_leg ?t l r"
      by (auto simp: c' set_map_entry [OF d1])
    show ?thesis
    proof (cases "t = ?t")
      case True
      then show ?thesis using slot_ok_put [OF l] \<open>fst p = ?s\<close> r(2) by (simp add: legs_put_leg)
    next
      case False
      from slots1 [OF r(1), of t] have "slot_ok q opts ?s t (legs r t)" by simp
      then have "slot_ok q (opts @ [opt]) ?s t (legs r t)"
        using False by (simp add: slot_ok_other)
      then show ?thesis using False \<open>fst p = ?s\<close> r(2) by (simp add: legs_put_leg)
    qed
  qed
  ultimately show ?thesis by (simp add: rows_ok_def)
qed

lemma build_chain_rows_ok:
  "build_chain q opts ([], None) = Inr (chain, e) \<Longrightarrow> rows_ok q opts chain"
proof (induction opts arbitrary: chain e rule: rev_induct)
  case Nil
  then show ?case by (simp add: rows_ok_def chain_inv_def)
next
  case (snoc x xs)
  from snoc.prems obtain c0 e0 where b: "build_chain q xs ([], None) = Inr (c0, e0)"
    and s: "chain_step q x (c0, e0) = Inr (chain, e)"
    by (auto simp: build_chain_snoc split: sum.splits)
  from chain_step_rows_ok [OF snoc.IH [OF b] s] show ?case .
qed

lemma sparse_run:
  "get_option_chain sparse_kite (Date 2024 1 20) (Some ''nifty'') None 0
     = ((Option_chain sparse_response, 200), 3)"
  by (simp add: sparse_kite_def sparse_response_def zero_leg_def demo_simps)

lemma make_leg_no_quote: "make_leg no_quote opt = Inr (zero_leg opt)"
  by (simp add: make_leg_def top_price_def no_quote_def zero_leg_def get_or_def)

lemma make_leg_ids:
  "make_leg q opt = Inr l \<Longrightarrow>
   leg_instrument_token l = instrument_token opt \<and> leg_tradingsymbol l = tradingsymbol opt
   \<and> leg_lot_size l = lot_size opt"
  by (auto simp: make_leg_def split: sum.splits)

lemma make_leg_no_depth:
  "make_leg q opt = Inr l \<Longrightarrow> no_depth q \<Longrightarrow> leg_bid l = 0 \<and> leg_ask l = 0"
  by (auto simp: make_leg_def top_price_def no_depth_def split: sum.splits)

text \<open>
  C6. A contract without a quote gets a leg whose numbers are 0, not an error. In a
  returned chain every strike of the filtered contracts has a row. In that row a slot
  \<^verbatim>\<open>CE\<close> or \<^verbatim>\<open>PE\<close> for which the strike has no contract is present with the value
  \<^verbatim>\<open>None\<close>. The slot of a contract (the last one of its strike and type) holds its leg:
  all numbers 0 when its quote is missing from the fetched quotes, bid and ask 0 when
  the quote has no depth.
\<close>

theorem chain_rows_and_legs:
  assumes run: "get_option_chain kite today symbol expiry_str w = ((Option_chain resp, status), w')"
    and insts: "instruments kite ''NFO'' w = (Inr insts, w1)"
    and filt: "filter_expiry today expiry_str (symbol_options (upper (the symbol)) insts) = Inr opts"
    and quotes: "fetch_quotes kite opts w1 = (all_quotes, w2)"
  shows "make_leg no_quote c = Inr (zero_leg c)
    \<and> (\<forall>opt \<in> set opts. \<exists>r \<in> set (r_chain resp).
          row_strike r = strike opt
          \<and> (\<forall>t \<in> {''CE'', ''PE''}.
                (\<forall>c \<in> set opts. strike c = strike opt \<longrightarrow> instrument_type c \<noteq> t)
                \<longrightarrow> legs r t = Some None)
          \<and> (opt = last (matches opts (strike opt) (instrument_type opt)) \<longrightarrow>
                (\<exists>l. legs r (instrument_type opt) = Some (Some l)
                    \<and> leg_instrument_token l = instrument_token opt
                    \<and> leg_tradingsymbol l = tradingsymbol opt
                    \<and> (all_quotes (''NFO:'' @ tradingsymbol opt) = None \<longrightarrow> l = zero_leg opt)
                    \<and> (no_depth (quote_for all_quotes opt) \<longrightarrow> leg_bid l = 0 \<and> leg_ask l = 0))))"
proof -
  from chain_response_built [OF run] insts filt quotes
  obtain chain e where b: "build_chain all_quotes opts ([], None) = Inr (chain, e)"
    and r: "r_chain resp = sort_key row_strike (map snd chain)"
    by auto
  from build_chain_rows_ok [OF b]
  have inv: "chain_inv chain" and keys: "fst ` set chain = strike ` set opts"
    and slots: "\<And>p t. p \<in> set chain \<Longrightarrow> slot_ok all_quotes opts (fst p) t (legs (snd p) t)"
    by (auto simp: rows_ok_def)
  have rows: "set (r_chain resp) = snd ` set chain" by (simp add: r)
  have main: "\<exists>r \<in> set (r_chain resp).
          row_strike r = strike opt
          \<and> (\<forall>t \<in> {''CE'', ''PE''}.
                (\<forall>c \<in> set opts. strike c = strike opt \<longrightarrow> instrument_type c \<noteq> t)
                \<longrightarrow> legs r t = Some None)
          \<and> (opt = last (matches opts (strike opt) (instrument_type opt)) \<longrightarrow>
                (\<exists>l. legs r (instrument_type opt) = Some (Some l)
                    \<and> leg_instrument_token l = instrument_token opt
                    \<and> leg_tradingsymbol l = tradingsymbol opt
                    \<and> (all_quotes (''NFO:'' @ tradingsymbol opt) = None \<longrightarrow> l = zero_leg opt)
                    \<and> (no_depth (quote_for all_quotes opt) \<longrightarrow> leg_bid l = 0 \<and> leg_ask l = 0)))"
    if opt: "opt \<in> set opts" for opt
  proof -
    from opt keys obtain p where p: "p \<in> set chain" "fst p = strike opt"
      by (metis (no_types, lifting) image_iff)
    have sr: "row_strike (snd p) = strike opt"
      using inv p by (simp add: chain_inv_def)
    have empty: "legs (snd p) t = Some None"
      if "t \<in> {''CE'', ''PE''}" "\<forall>c \<in> set opts. strike c = strike opt \<longrightarrow> instrument_type c \<noteq> t" for t
    proof -
      from that(2) have "matches opts (strike opt) t = []"
        by (auto simp: matches_def filter_empty_conv)
      with slots [OF p(1), of t] p(2) have "legs (snd p) t = legs (new_row (strike opt)) t"
        by (simp add: slot_ok_def)
      with that(1) show ?thesis by (auto simp: new_row_def)
    qed
    have filled: "\<exists>l. legs (snd p) (instrument_type opt) = Some (Some l)
                    \<and> leg_instrument_token l = instrument_token opt
                    \<and> leg_tradingsymbol l = tradingsymbol opt
                    \<and> (all_quotes (''NFO:'' @ tradingsymbol opt) = None \<longrightarrow> l = zero_leg opt)
                    \<and> (no_depth (quote_for all_quotes opt) \<longrightarrow> leg_bid l = 0 \<and> leg_ask l = 0)"
      if lst: "opt = last (matches opts (strike opt) (instrument_type opt))"
    proof -
      have ne: "matches opts (strike opt) (instrument_type opt) \<noteq> []"
        using opt by (auto simp: matches_def filter_empty_conv)
      with slots [OF p(1), of "instrument_type opt"] p(2) lst
      obtain l where l: "make_leg (quote_for all_quotes opt) opt = Inr l"
        "legs (snd p) (instrument_type opt) = Some (Some l)"
        by (auto simp: slot_ok_def)
      have "all_quotes (''NFO:'' @ tradingsymbol opt) = None \<longrightarrow> l = zero_leg opt"
        using l(1) by (auto simp: quote_for_def get_or_def make_leg_no_quote)
      with l make_leg_ids [OF l(1)] make_leg_no_depth [OF l(1)] show ?thesis
        by (intro exI [of _ l]) auto
    qed
    have single: "\<forall>t \<in> {''CE'', ''PE''}.
                (\<forall>c \<in> set opts. strike c = strike opt \<longrightarrow> instrument_type c \<noteq> t)
                \<longrightarrow> legs (snd p) t = Some None"
      by (intro ballI impI) (rule empty)
    from p(1) rows have "snd p \<in> set (r_chain resp)" by auto
    then show ?thesis
    proof (rule bexI [rotated])
      show "row_strike (snd p) = strike opt
          \<and> (\<forall>t \<in> {''CE'', ''PE''}.
                (\<forall>c \<in> set opts. strike c = strike opt \<longrightarrow> instrument_type c \<noteq> t)
                \<longrightarrow> legs (snd p) t = Some None)
          \<and> (opt = last (matches opts (strike opt) (instrument_type opt)) \<longrightarrow>
                (\<exists>l. legs (snd p) (instrument_type opt) = Some (Some l)
                    \<and> leg_instrument_token l = instrument_token opt
                    \<and> leg_tradingsymbol l = tradingsymbol opt
                    \<and> (all_quotes (''NFO:'' @ tradingsymbol opt) = None \<longrightarrow> l = zero_leg opt)
                    \<and> (no_depth (quote_for all_quotes opt) \<longrightarrow> leg_bid l = 0 \<and> leg_ask l = 0)))"
      proof (intro conjI impI)
        show "row_strike (snd p) = strike opt" by (rule sr)
        show "\<forall>t \<in> {''CE'', ''PE''}.
                (\<forall>c \<in> set opts. strike c = strike opt \<longrightarrow> instrument_type c \<noteq> t)
                \<longrightarrow> legs (snd p) t = Some None" by (rule single)
      next
        assume "opt = last (matches opts (strike opt) (instrument_type opt))"
        then show "\<exists>l. legs (snd p) (instrument_type opt) = Some (Some l)
                    \<and> leg_instrument_token l = instrument_token opt
                    \<and> leg_tradingsymbol l = tradingsymbol opt
                    \<and> (all_quotes (''NFO:'' @ tradingsymbol opt) = None \<longrightarrow> l = zero_leg opt)
                    \<and> (no_depth (quote_for all_quotes opt) \<longrightarrow> leg_bid l = 0 \<and> leg_ask l = 0)"
          by (rule filled)
      qed
    qed
  qed
  show ?thesis
  proof (intro conjI ballI)
    show "make_leg no_quote c = Inr (zero_leg c)" by (rule make_leg_no_quote)
  next
    fix opt assume "opt \<in> set opts"
    then show "\<exists>r \<in> set (r_chain resp).
          row_strike r = strike opt
          \<and> (\<forall>t \<in> {''CE'', ''PE''}.
                (\<forall>c \<in> set opts. strike c = strike opt \<longrightarrow> instrument_type c \<noteq> t)
                \<longrightarrow> legs r t = Some None)
          \<and> (opt = last (matches opts (strike opt) (instrument_type opt)) \<longrightarrow>
                (\<exists>l. legs r (instrument_type opt) = Some (Some l)
                    \<and> leg_instrument_token l = instrument_token opt
                    \<and> leg_tradingsymbol l = tradingsymbol opt
                    \<and> (all_quotes (''NFO:'' @ tradingsymbol opt) = None \<longrightarrow> l = zero_leg opt)
                    \<and> (no_depth (quote_for all_quotes opt) \<longrightarrow> leg_bid l = 0 \<and> leg_ask l = 0)))"
      by (rule main)
  qed
qed

theorem chain_rows_and_legs_witness:
  "get_option_chain sparse_kite (Date 2024 1 20) (Some ''nifty'') None 0
     = ((Option_chain sparse_response, 200), 3)
   \<and> (\<exists>r \<in> set (r_chain sparse_response). row_strike r = 209 \<and> legs r ''PE'' = Some None)
   \<and> (\<exists>r \<in> set (r_chain sparse_response).
         row_strike r = 210 \<and> legs r ''PE'' = Some (Some (zero_leg (demo_catalog ! 1))))"
proof -
  let ?opts = "take 3 demo_catalog"
  let ?aq = "fst (fetch_quotes sparse_kite ?opts 1)"
  have insts: "instruments sparse_kite ''NFO'' 0 = (Inr demo_catalog, 1)"
    by (simp add: sparse_kite_def demo_kite_def)
  have filt: "filter_expiry (Date 2024 1 20) None
                (symbol_options (upper (the (Some ''nifty''))) demo_catalog) = Inr ?opts"
    by (simp add: demo_simps)
  have quotes: "fetch_quotes sparse_kite ?opts 1 = (?aq, snd (fetch_quotes sparse_kite ?opts 1))"
    by simp
  note rows = chain_rows_and_legs [OF sparse_run insts filt quotes, THEN conjunct2, rule_format]
  have c: "demo_catalog ! 2 \<in> set ?opts" and p: "demo_catalog ! 1 \<in> set ?opts"
    by (simp_all add: demo_catalog_def)
  have only_call: "\<forall>c \<in> set ?opts. strike c = strike (demo_catalog ! 2) \<longrightarrow> instrument_type c \<noteq> ''PE''"
    by (simp add: demo_catalog_def)
  have is_last: "demo_catalog ! 1
      = last (matches ?opts (strike (demo_catalog ! 1)) (instrument_type (demo_catalog ! 1)))"
    by (simp add: demo_catalog_def matches_def)
  have missing: "?aq (''NFO:'' @ tradingsymbol (demo_catalog ! 1)) = None"
    by (simp add: sparse_kite_def demo_simps)
  from rows [OF c] only_call
  have a: "\<exists>r \<in> set (r_chain sparse_response). row_strike r = 209 \<and> legs r ''PE'' = Some None"
    by (auto simp: demo_catalog_def)
  from rows [OF p] is_last missing
  have b: "\<exists>r \<in> set (r_chain sparse_response).
         row_strike r = 210 \<and> legs r ''PE'' = Some (Some (zero_leg (demo_catalog ! 1)))"
    by (auto simp: demo_catalog_def)
  from sparse_run a b show ?thesis by blast
qed

section \<open>The batched quote fetch\<close>

lemma digit_char_in: "d < 10 \<Longrightarrow> digit_char d \<in> set ''0123456789''"
  unfolding digit_char_def by (rule nth_mem) simp

lemma digit_char_inj:
  assumes "a < 10" "b < 10" "digit_char a = digit_char b"
  shows "a = b"
proof -
  have "distinct ''0123456789''" by simp
  moreover have "a < length ''0123456789''" "b < length ''0123456789''" using assms by simp_all
  ultimately show ?thesis using assms(3) unfolding digit_char_def
    by (simp only: nth_eq_iff_index_eq)
qed

lemma str_nat_nonempty: "str_nat n \<noteq> []"
  by (subst str_nat.simps) simp

lemma str_nat_digits: "set (str_nat n) \<subseteq> set ''0123456789''"
proof (induction n rule: str_nat.induct)
  case (1 n)
  show ?case
  proof (cases "n < 10")
    case True
    then show ?thesis using digit_char_in [of n] by (subst str_nat.simps) simp
  next
    case False
    have "n mod 10 < 10" by simp
    from digit_char_in [OF this] 1 [OF False] False show ?thesis
      by (subst str_nat.simps) simp
  qed
qed

lemma str_nat_inj: "str_nat m = str_nat n \<Longrightarrow> m = n"
proof (induction m arbitrary: n rule: str_nat.induct)
  case (1 m)
  show ?case
  proof (cases "m < 10")
    case small: True
    show ?thesis
    proof (cases "n < 10")
      case True
      with small "1.prems" have "digit_char m = digit_char n"
        by (simp add: str_nat.simps [of m] str_nat.simps [of n])
      with small True show ?thesis by (rule digit_char_inj)
    next
      case False
      with small "1.prems" str_nat_nonempty [of "n div 10"] show ?thesis
        by (simp add: str_nat.simps [of m] str_nat.simps [of n])
    qed
  next
    case big: False
    show ?thesis
    proof (cases "n < 10")
      case True
      with big "1.prems" str_nat_nonempty [of "m div 10"] show ?thesis
        by (simp add: str_nat.simps [of m] str_nat.simps [of n])
    next
      case False
      with big "1.prems" have eq: "str_nat (m div 10) = str_nat (n div 10)"
        and d: "digit_char (m mod 10) = digit_char (n mod 10)"
        by (simp_all add: str_nat.simps [of m] str_nat.simps [of n])
      from "1.IH" [OF big eq] have "m div 10 = n div 10" .
      moreover have "m mod 10 = n mod 10"
        using d by (intro digit_char_inj) simp_all
      ultimately show ?thesis by (metis div_mult_mod_eq)
    qed
  qed
qed

lemma str_int_inj: "str_int a = str_int b \<Longrightarrow> a = b"
proof -
  assume eq: "str_int a = str_int b"
  have nominus: "\<And>n cs. str_nat n \<noteq> CHR ''-'' # cs"
  proof
    fix n cs assume "str_nat n = CHR ''-'' # cs"
    then have "CHR ''-'' \<in> set (str_nat n)" by simp
    with str_nat_digits [of n] show False by auto
  qed
  show ?thesis
  proof (cases "a < 0")
    case True
    show ?thesis
    proof (cases "b < 0")
      case b: True
      with True eq have "str_nat (nat (- a)) = str_nat (nat (- b))" by (simp add: str_int_def)
      then have "nat (- a) = nat (- b)" by (rule str_nat_inj)
      with True b show ?thesis by simp
    next
      case False
      with True eq nominus show ?thesis by (simp add: str_int_def) metis
    qed
  next
    case False
    show ?thesis
    proof (cases "b < 0")
      case True
      with False eq nominus show ?thesis by (simp add: str_int_def)
    next
      case b: False
      with False eq have "str_nat (nat a) = str_nat (nat b)" by (simp add: str_int_def)
      then have "nat a = nat b" by (rule str_nat_inj)
      with False b show ?thesis by simp
    qed
  qed
qed

lemma filter_middle:
  assumes "distinct (map f (as @ bs @ cs))"
  shows "[x \<leftarrow> as @ bs @ cs. f x \<in> f ` set bs] = bs"
proof -
  have "[x \<leftarrow> as. f x \<in> f ` set bs] = []"
    using assms by (auto simp: filter_empty_conv)
  moreover have "[x \<leftarrow> cs. f x \<in> f ` set bs] = []"
    using assms by (auto simp: filter_empty_conv)
  moreover have "[x \<leftarrow> bs. f x \<in> f ` set bs] = bs"
    by (simp add: filter_id_conv)
  ultimately show ?thesis by simp
qed

lemma slice_filter:
  assumes "distinct (map f xs)"
  shows "[x \<leftarrow> xs. f x \<in> set (take n (drop i (map f xs)))] = take n (drop i xs)"
proof -
  define as bs cs where "as = take i xs" and "bs = take n (drop i xs)"
    and "cs = drop n (drop i xs)"
  have xs: "xs = as @ bs @ cs"
    unfolding as_def bs_def cs_def by (metis append_take_drop_id)
  have img: "set (take n (drop i (map f xs))) = f ` set bs"
    by (simp add: take_map drop_map bs_def)
  have "distinct (map f (as @ bs @ cs))" using assms unfolding xs .
  from filter_middle [OF this] have "[x \<leftarrow> xs. f x \<in> f ` set bs] = bs"
    unfolding xs .
  then show ?thesis unfolding img unfolding bs_def .
qed

lemma batch_ids_slice:
  assumes "distinct (map instrument_token options)"
  shows "batch_ids options i = map nfo_id (take batch_size (drop i options))"
proof -
  have "distinct (map (\<lambda>opt. str_int (instrument_token opt)) options)"
  proof -
    have "inj str_int" by (rule injI) (rule str_int_inj)
    then have "distinct (map str_int (map instrument_token options))"
      using assms by (simp add: distinct_map inj_on_def)
    then show ?thesis by (simp add: comp_def)
  qed
  from slice_filter [OF this] show ?thesis
    by (simp add: batch_ids_def nfo_id_def)
qed

lemma quote_batch_logged:
  "quote_batch (logged kite) options tokens i (acc, (cl, w)) =
     (case quote kite (batch_ids options i) w of
        (r, w') \<Rightarrow> ((case r of Inr m \<Rightarrow> acc ++ m | Inl e \<Rightarrow> acc), (cl @ [(batch_ids options i, r)], w')))"
  if "tokens = map (\<lambda>opt. str_int (instrument_token opt)) options"
  using that
  by (auto simp: quote_batch_def logged_def batch_ids_def Let_def split: prod.splits sum.splits)

lemma quote_batch_plain:
  "quote_batch kite options tokens i (acc, w) =
     (case quote kite (batch_ids options i) w of
        (r, w') \<Rightarrow> ((case r of Inr m \<Rightarrow> acc ++ m | Inl e \<Rightarrow> acc), w'))"
  if "tokens = map (\<lambda>opt. str_int (instrument_token opt)) options"
  using that
  by (auto simp: quote_batch_def batch_ids_def Let_def split: prod.splits sum.splits)

lemma logged_loop:
  assumes tok: "tokens = map (\<lambda>opt. str_int (instrument_token opt)) options"
    and run: "foldl (\<lambda>acc i. quote_batch (logged kite) options tokens i acc) (acc, (cl, w)) idxs
              = (acc', (cl', w'))"
  shows "foldl (\<lambda>acc i. quote_batch kite options tokens i acc) (acc, w) idxs = (acc', w')
       \<and> (\<exists>new. cl' = cl @ new
              \<and> map fst new = map (batch_ids options) idxs
              \<and> acc' = foldl (++) acc (successes new)
              \<and> (\<forall>c \<in> set new. \<forall>m. snd c = Inr m \<longrightarrow>
                    (\<exists>w0 w1. quote kite (fst c) w0 = (Inr m, w1))))"
  using run
proof (induction idxs arbitrary: acc cl w)
  case Nil
  then show ?case by simp
next
  case (Cons i idxs)
  obtain r w1 where q: "quote kite (batch_ids options i) w = (r, w1)"
    by (cases "quote kite (batch_ids options i) w") auto
  define acc1 where "acc1 = (case r of Inr m \<Rightarrow> acc ++ m | Inl e \<Rightarrow> acc)"
  have step: "quote_batch (logged kite) options tokens i (acc, (cl, w))
                = (acc1, (cl @ [(batch_ids options i, r)], w1))"
    by (simp add: quote_batch_logged [OF tok] q acc1_def)
  have step': "quote_batch kite options tokens i (acc, w) = (acc1, w1)"
    by (simp add: quote_batch_plain [OF tok] q acc1_def)
  from Cons.prems have "foldl (\<lambda>acc i. quote_batch (logged kite) options tokens i acc)
        (acc1, (cl @ [(batch_ids options i, r)], w1)) idxs = (acc', (cl', w'))"
    by (simp add: step)
  from Cons.IH [OF this] obtain new where
    plain: "foldl (\<lambda>acc i. quote_batch kite options tokens i acc) (acc1, w1) idxs = (acc', w')"
    and new: "cl' = (cl @ [(batch_ids options i, r)]) @ new"
      "map fst new = map (batch_ids options) idxs"
      "acc' = foldl (++) acc1 (successes new)"
      "\<forall>c \<in> set new. \<forall>m. snd c = Inr m \<longrightarrow> (\<exists>w0 w1. quote kite (fst c) w0 = (Inr m, w1))"
    by blast
  let ?new = "(batch_ids options i, r) # new"
  have "acc' = foldl (++) acc (successes ?new)"
    using new(3) by (cases r) (simp_all add: acc1_def)
  moreover have "\<forall>c \<in> set ?new. \<forall>m. snd c = Inr m \<longrightarrow> (\<exists>w0 w1. quote kite (fst c) w0 = (Inr m, w1))"
    using new(4) q by auto
  ultimately show ?case using plain new(1,2) step' by (intro conjI exI [of _ ?new]) simp_all
qed

lemma logged_fetch:
  assumes run: "fetch_quotes (logged kite) options ([], w) = (all_quotes, (calls, w'))"
  shows "fetch_quotes kite options w = (all_quotes, w')
       \<and> map fst calls = map (batch_ids options) (range_step 0 (length options) batch_size)
       \<and> all_quotes = foldl (++) Map.empty (successes calls)
       \<and> (\<forall>c \<in> set calls. \<forall>m. snd c = Inr m \<longrightarrow>
             (\<exists>w0 w1. quote kite (fst c) w0 = (Inr m, w1)))"
  using logged_loop [OF refl, of kite options Map.empty "[]" w
      "range_step 0 (length options) batch_size" all_quotes calls w'] run
  by (simp add: fetch_quotes_def Let_def)

lemma length_range_step: "length (range_step 0 n batch_size) = (n + 199) div 200"
  by (simp add: range_step_def batch_size_def)

lemma nth_range_step:
  "i < length (range_step 0 n batch_size) \<Longrightarrow> range_step 0 n batch_size ! i = i * 200"
  unfolding range_step_def batch_size_def by simp

lemma concat_chunks: "concat (map (\<lambda>k. take n (drop (k * n) xs)) [0..<c]) = take (c * n) xs"
proof (induction c)
  case 0
  then show ?case by simp
next
  case (Suc c)
  have "take (Suc c * n) xs = take (c * n + n) xs" by (simp add: add.commute)
  also have "\<dots> = take (c * n) xs @ take n (drop (c * n) xs)" by (rule take_add)
  finally show ?case using Suc by simp
qed

lemma concat_batches:
  "concat (map (\<lambda>i. take batch_size (drop i xs)) (range_step 0 (length xs) batch_size)) = xs"
proof -
  have "length xs + 199 = (length xs + 199) div 200 * 200 + (length xs + 199) mod 200"
    by simp
  moreover have "(length xs + 199) mod 200 < 200" by simp
  ultimately have "length xs \<le> ((length xs + 199) div 200) * 200" by linarith
  then show ?thesis
    by (simp add: range_step_def batch_size_def comp_def concat_chunks)
qed

lemma chunks_disjoint:
  assumes "distinct xs" "i + n \<le> j"
  shows "set (take n (drop i xs)) \<inter> set (take n (drop j xs)) = {}"
proof -
  have "take n (drop i xs) = drop i (take (i + n) xs)"
    by (simp add: drop_take add.commute)
  then have "set (take n (drop i xs)) \<subseteq> set (take (i + n) xs)"
    by (simp add: set_drop_subset)
  also have "\<dots> \<subseteq> set (take j xs)"
    using assms(2) by (rule set_take_subset_set_take)
  finally have a: "set (take n (drop i xs)) \<subseteq> set (take j xs)" .
  have b: "set (take n (drop j xs)) \<subseteq> set (drop j xs)" by (rule set_take_subset)
  have "distinct (take j xs @ drop j xs)" using assms(1) by simp
  then have "set (take j xs) \<inter> set (drop j xs) = {}" by (simp only: distinct_append)
  with a b show ?thesis by blast
qed

lemma call_index_unique:
  assumes d: "distinct (map nfo_id options)"
    and c: "map fst calls = map (\<lambda>i. map nfo_id (take batch_size (drop i options)))
                              (range_step 0 (length options) batch_size)"
    and a: "a < length calls" and b: "b < length calls"
    and ka: "k \<in> set (fst (calls ! a))" and kb: "k \<in> set (fst (calls ! b))"
  shows "a = b"
proof -
  have len: "length calls = (length options + 199) div 200"
    using arg_cong [OF c, of length] by (simp add: length_range_step)
  have ids: "fst (calls ! i) = take 200 (drop (i * 200) (map nfo_id options))"
    if "i < length calls" for i
  proof -
    have "fst (calls ! i) = map fst calls ! i" using that by simp
    also have "\<dots> = map nfo_id (take batch_size (drop (i * 200) options))"
      unfolding c using that len by (simp add: length_range_step nth_range_step)
    finally show ?thesis by (simp add: take_map drop_map batch_size_def)
  qed
  have ne: False if "i < j" "j < length calls" "k \<in> set (fst (calls ! i))" "k \<in> set (fst (calls ! j))"
    for i j
  proof -
    from that(1) have "i * 200 + 200 \<le> j * 200" by simp
    from chunks_disjoint [OF d this] that ids [of i] ids [of j] show False by auto
  qed
  show ?thesis
  proof (rule ccontr)
    assume "a \<noteq> b"
    then consider "a < b" | "b < a" by linarith
    then show False using ne a b ka kb by cases blast+
  qed
qed

lemma fold_add_some:
  "foldl (++) acc ms k = Some v \<Longrightarrow> acc k = Some v \<or> (\<exists>m \<in> set ms. m k = Some v)"
  by (induction ms rule: rev_induct) (auto simp: map_add_Some_iff)

lemma fold_add_agree:
  "\<exists>m \<in> set ms. m k = Some v \<Longrightarrow> \<forall>m \<in> set ms. \<forall>v'. m k = Some v' \<longrightarrow> v' = v \<Longrightarrow>
   foldl (++) acc ms k = Some v"
proof (induction ms rule: rev_induct)
  case Nil
  then show ?case by simp
next
  case (snoc m ms)
  show ?case
  proof (cases "m k")
    case None
    with snoc show ?thesis by (auto simp: map_add_Some_iff)
  next
    case (Some v')
    with snoc.prems(2) have "v' = v" by simp
    with Some show ?thesis by (simp add: map_add_Some_iff)
  qed
qed

lemma successes_set: "m \<in> set (successes calls) \<longleftrightarrow> (\<exists>ids. (ids, Inr m) \<in> set calls)"
  by (induction calls rule: successes.induct) auto

lemma batched_fetch_facts:
  assumes dt: "distinct (map instrument_token options)"
    and ds: "distinct (map tradingsymbol options)"
    and keys: "\<forall>ids w0 m w1. quote kite ids w0 = (Inr m, w1) \<longrightarrow> dom m \<subseteq> set ids"
    and run: "fetch_quotes (logged kite) options ([], w) = (all_quotes, (calls, w'))"
  shows "map fst calls
           = map (\<lambda>i. map nfo_id (take 200 (drop i options))) (range_step 0 (length options) 200)
       \<and> length calls = (length options + 199) div 200
       \<and> (\<forall>c \<in> set calls. length (fst c) \<le> 200)
       \<and> concat (map fst calls) = map nfo_id options
       \<and> fetch_quotes kite options w = (all_quotes, w')
       \<and> (\<forall>k v. all_quotes k = Some v \<longleftrightarrow> (\<exists>m \<in> set (successes calls). m k = Some v))
       \<and> (\<forall>a b. a < b \<and> b < length calls \<longrightarrow>
             (\<forall>m m'. snd (calls ! a) = Inr m \<and> snd (calls ! b) = Inr m'
                \<longrightarrow> dom m \<inter> dom m' = {}))"
proof -
  from logged_fetch [OF run]
  have plain: "fetch_quotes kite options w = (all_quotes, w')"
    and c0: "map fst calls = map (batch_ids options) (range_step 0 (length options) batch_size)"
    and merged: "all_quotes = foldl (++) Map.empty (successes calls)"
    and real: "\<forall>c \<in> set calls. \<forall>m. snd c = Inr m \<longrightarrow> (\<exists>w0 w1. quote kite (fst c) w0 = (Inr m, w1))"
    by blast+
  have c: "map fst calls = map (\<lambda>i. map nfo_id (take batch_size (drop i options)))
                              (range_step 0 (length options) batch_size)"
    unfolding c0 by (simp add: batch_ids_slice [OF dt])
  have len: "length calls = (length options + 199) div 200"
    using arg_cong [OF c, of length] by (simp add: length_range_step)
  have bound: "\<forall>c \<in> set calls. length (fst c) \<le> 200"
  proof
    fix e assume "e \<in> set calls"
    then have "fst e \<in> set (map fst calls)" by simp
    then show "length (fst e) \<le> 200" unfolding c by (auto simp: batch_size_def)
  qed
  have cat: "concat (map fst calls) = map nfo_id options"
  proof -
    have "concat (map fst calls)
            = concat (map (\<lambda>i. take batch_size (drop i (map nfo_id options)))
                        (range_step 0 (length (map nfo_id options)) batch_size))"
      unfolding c by (simp add: take_map drop_map)
    then show ?thesis by (simp only: concat_batches)
  qed
  have dn: "distinct (map nfo_id options)"
    using ds by (simp add: distinct_map inj_on_def nfo_id_def)
  have within: "dom m \<subseteq> set (fst (calls ! i))" if "i < length calls" "snd (calls ! i) = Inr m" for i m
  proof -
    from that(1) have "calls ! i \<in> set calls" by simp
    with real that(2) obtain w0 w1 where "quote kite (fst (calls ! i)) w0 = (Inr m, w1)" by blast
    with keys show ?thesis by blast
  qed
  have disj: "dom m \<inter> dom m' = {}"
    if "a < b" "b < length calls" "snd (calls ! a) = Inr m" "snd (calls ! b) = Inr m'" for a b m m'
  proof (rule ccontr)
    assume "dom m \<inter> dom m' \<noteq> {}"
    then obtain k where "k \<in> dom m" "k \<in> dom m'" by blast
    with within [of a m] within [of b m'] that
    have "k \<in> set (fst (calls ! a))" "k \<in> set (fst (calls ! b))" by auto
    moreover have "a < length calls" using that(1,2) by simp
    ultimately have "a = b" using that(2) by (intro call_index_unique [OF dn c])
    with that(1) show False by simp
  qed
  have union: "all_quotes k = Some v \<longleftrightarrow> (\<exists>m \<in> set (successes calls). m k = Some v)" for k v
  proof
    assume "all_quotes k = Some v"
    with fold_add_some [of Map.empty "successes calls" k v] merged
    show "\<exists>m \<in> set (successes calls). m k = Some v" by simp
  next
    assume ex: "\<exists>m \<in> set (successes calls). m k = Some v"
    then obtain m where m: "m \<in> set (successes calls)" "m k = Some v" by blast
    then obtain ids where "(ids, Inr m) \<in> set calls" by (auto simp: successes_set)
    then obtain a where a: "a < length calls" "calls ! a = (ids, Inr m)"
      by (auto simp: in_set_conv_nth)
    have agree: "v' = v" if "m' \<in> set (successes calls)" "m' k = Some v'" for m' v'
    proof -
      from that(1) obtain ids' where "(ids', Inr m') \<in> set calls" by (auto simp: successes_set)
      then obtain b where b: "b < length calls" "calls ! b = (ids', Inr m')"
        by (auto simp: in_set_conv_nth)
      from within [OF a(1), of m] a(2) m(2) have "k \<in> set (fst (calls ! a))" by auto
      moreover from within [OF b(1), of m'] b(2) that(2) have "k \<in> set (fst (calls ! b))" by auto
      ultimately have "a = b" by (rule call_index_unique [OF dn c a(1) b(1)])
      with a(2) b(2) m(2) that(2) show ?thesis by simp
    qed
    from fold_add_agree [OF ex, of Map.empty] agree merged
    show "all_quotes k = Some v" by blast
  qed
  have c': "map fst calls
           = map (\<lambda>i. map nfo_id (take 200 (drop i options))) (range_step 0 (length options) 200)"
    using c by (simp add: batch_size_def)
  have union': "\<forall>k v. all_quotes k = Some v \<longleftrightarrow> (\<exists>m \<in> set (successes calls). m k = Some v)"
    using union by blast
  have disj': "\<forall>a b. a < b \<and> b < length calls \<longrightarrow>
             (\<forall>m m'. snd (calls ! a) = Inr m \<and> snd (calls ! b) = Inr m'
                \<longrightarrow> dom m \<inter> dom m' = {})"
    using disj by blast
  show ?thesis
    using c' len bound cat plain union' disj' by (intro conjI) assumption+
qed

lemma top_price_ok:
  "levels_ok q \<Longrightarrow> side = buy \<or> side = sell \<Longrightarrow> \<exists>p. top_price q side = Inr p"
  by (auto simp: levels_ok_def top_price_def split: option.splits list.splits)

lemma make_leg_ok: "levels_ok q \<Longrightarrow> \<exists>l. make_leg q opt = Inr l"
  using top_price_ok [of q buy] top_price_ok [of q sell]
  by (auto simp: make_leg_def)

lemma levels_ok_no_quote: "levels_ok no_quote"
  by (simp add: levels_ok_def no_quote_def)

lemma chain_step_ok:
  assumes "\<forall>k q. all_quotes k = Some q \<longrightarrow> levels_ok q"
  shows "\<exists>st'. chain_step all_quotes opt st = Inr st'"
proof -
  have "levels_ok (get_or (all_quotes (''NFO:'' @ tradingsymbol opt)) no_quote)"
    using assms levels_ok_no_quote by (auto simp: get_or_def split: option.splits)
  from make_leg_ok [OF this, of opt] show ?thesis
    by (cases st) (auto simp: chain_step_def Let_def)
qed

lemma build_chain_ok:
  assumes "\<forall>k q. all_quotes k = Some q \<longrightarrow> levels_ok q"
  shows "\<exists>st'. build_chain all_quotes opts st = Inr st'"
proof (induction opts arbitrary: st)
  case Nil
  then show ?case by simp
next
  case (Cons opt opts)
  from chain_step_ok [OF assms, of opt st] obtain st1 where "chain_step all_quotes opt st = Inr st1"
    by blast
  with Cons [of st1] show ?case by simp
qed

lemma handler_answers_chain:
  assumes sy: "symbol \<noteq> None" "symbol \<noteq> Some []"
    and insts: "instruments kite ''NFO'' w0 = (Inr insts, w)"
    and filt: "filter_expiry today expiry_str (symbol_options (upper (the symbol)) insts) = Inr options"
    and ne: "options \<noteq> []"
    and quotes: "fetch_quotes kite options w = (all_quotes, w')"
    and ok: "\<forall>k q. all_quotes k = Some q \<longrightarrow> levels_ok q"
  shows "\<exists>resp w''. get_option_chain kite today symbol expiry_str w0 = ((Option_chain resp, 200), w'')"
proof -
  from build_chain_ok [OF ok, of options "([], None)"] obtain chain e where
    b: "build_chain all_quotes options ([], None) = Inr (chain, e)" by (metis surj_pair)
  have so: "symbol_options (upper (the symbol)) insts \<noteq> []"
    using filt ne
    by (auto simp: filter_expiry_def split: if_splits option.splits)
  obtain sp w3 where spot: "fetch_spot kite (upper (the symbol)) w' = (sp, w3)"
    by (cases "fetch_spot kite (upper (the symbol)) w'") auto
  show ?thesis
    using sy insts filt ne quotes b so spot
    by (simp add: get_option_chain_def Let_def)
qed

lemma big_length: "length big_options = 450"
  by (simp add: big_options_def)

lemma big_tokens_distinct: "distinct (map instrument_token big_options)"
  by (simp add: big_options_def comp_def distinct_map inj_on_def)

lemma big_symbols_distinct: "distinct (map tradingsymbol big_options)"
  by (auto simp: big_options_def comp_def distinct_map inj_on_def dest: str_nat_inj)

lemma map_of_const:
  "map_of (map (\<lambda>i. (i, q)) ids) k = (if k \<in> set ids then Some q else None)"
  by (induction ids) auto

lemma flaky_keys:
  "\<forall>ids w0 m w1. quote flaky_kite ids w0 = (Inr m, w1) \<longrightarrow> dom m \<subseteq> set ids"
  by (auto simp: flaky_kite_def map_of_const split: if_splits)

lemma flaky_run:
  "fetch_quotes (logged flaky_kite) big_options ([], 1) =
     (map_of (map (\<lambda>i. (i, demo_quote)) (batch_ids big_options 200))
        ++ map_of (map (\<lambda>i. (i, demo_quote)) (batch_ids big_options 400)),
      [(batch_ids big_options 0, Inl (KiteException ''timeout'')),
       (batch_ids big_options 200, Inr (map_of (map (\<lambda>i. (i, demo_quote)) (batch_ids big_options 200)))),
       (batch_ids big_options 400, Inr (map_of (map (\<lambda>i. (i, demo_quote)) (batch_ids big_options 400))))],
      4)"
proof -
  have r: "range_step 0 450 batch_size = [0, 200, 400]"
    by (simp add: range_step_def batch_size_def upt_rec)
  show ?thesis
    by (simp add: fetch_quotes_def Let_def big_length r quote_batch_logged [OF refl] flaky_kite_def)
qed

lemma big_symbol_options: "symbol_options (upper ''big'') big_options = big_options"
  by (simp add: symbol_options_def filter_id_conv big_options_def upper_def upper_char_def)

lemma big_filter_expiry:
  "filter_expiry today (Some ''2024-01-25'') big_options = Inr big_options"
proof -
  have "strptime ''2024-01-25'' = Some (Date 2024 1 25)"
    by (simp add: digit_val_def make_date_def days_in_month_def)
  moreover have "[opt \<leftarrow> big_options. expiry opt = Some (Date 2024 1 25)] = big_options"
    by (simp add: filter_id_conv big_options_def)
  ultimately show ?thesis by (simp add: filter_expiry_def)
qed

lemma first_id_in_first_batch: "''NFO:0'' \<in> set (batch_ids big_options 0)"
proof -
  have "big_options ! 0 \<in> set (take batch_size (drop 0 big_options))"
    by (simp add: in_set_conv_nth batch_size_def big_length) (rule exI [of _ 0], simp)
  then have "nfo_id (big_options ! 0) \<in> set (batch_ids big_options 0)"
    unfolding batch_ids_slice [OF big_tokens_distinct] by simp
  moreover have "nfo_id (big_options ! 0) = ''NFO:0''"
    by (simp add: nfo_id_def big_options_def str_nat.simps digit_char_def)
  ultimately show ?thesis by simp
qed

lemma id_200_in_second_batch: "''NFO:200'' \<in> set (batch_ids big_options 200)"
proof -
  have "big_options ! 200 \<in> set (take batch_size (drop 200 big_options))"
    by (simp add: in_set_conv_nth batch_size_def big_length)
      (rule exI [of _ 0], simp add: big_length)
  then have "nfo_id (big_options ! 200) \<in> set (batch_ids big_options 200)"
    unfolding batch_ids_slice [OF big_tokens_distinct] by simp
  moreover have "nfo_id (big_options ! 200) = ''NFO:200''"
    by (simp add: nfo_id_def big_options_def str_nat.simps digit_char_def)
  ultimately show ?thesis by simp
qed

text \<open>
  C3. For contracts with distinct tokens and distinct symbols, and a broker whose answer
  has keys among the identifiers asked for, the fetch calls \<^verbatim>\<open>kite.quote\<close> once per
  slice of 200 contracts, in order: the number of calls is the ceiling of N / 200, no
  call has more than 200 identifiers, and the calls together are the identifiers of the
  contracts in input order. The merged mapping holds exactly the entries of the calls
  that returned, and the results of two calls share no key, so no entry is overwritten.
\<close>

theorem batched_quote_fetch:
  assumes dt: "distinct (map instrument_token options)"
    and ds: "distinct (map tradingsymbol options)"
    and keys: "\<forall>ids w0 m w1. quote kite ids w0 = (Inr m, w1) \<longrightarrow> dom m \<subseteq> set ids"
    and run: "fetch_quotes (logged kite) options ([], w) = (all_quotes, (calls, w'))"
  shows "map fst calls
           = map (\<lambda>i. map nfo_id (take 200 (drop i options))) (range_step 0 (length options) 200)
       \<and> length calls = (length options + 199) div 200
       \<and> (\<forall>c \<in> set calls. length (fst c) \<le> 200)
       \<and> concat (map fst calls) = map nfo_id options
       \<and> fetch_quotes kite options w = (all_quotes, w')
       \<and> (\<forall>k v. all_quotes k = Some v \<longleftrightarrow> (\<exists>m \<in> set (successes calls). m k = Some v))
       \<and> (\<forall>a b. a < b \<and> b < length calls \<longrightarrow>
             (\<forall>m m'. snd (calls ! a) = Inr m \<and> snd (calls ! b) = Inr m'
                \<longrightarrow> dom m \<inter> dom m' = {}))"
  using dt ds keys run by (rule batched_fetch_facts)

theorem batched_quote_fetch_witness:
  "distinct (map instrument_token big_options) \<and> distinct (map tradingsymbol big_options)
   \<and> length big_options = 450
   \<and> length (fst (snd (fetch_quotes (logged flaky_kite) big_options ([], 0)))) = 3
   \<and> concat (map fst (fst (snd (fetch_quotes (logged flaky_kite) big_options ([], 0)))))
       = map nfo_id big_options"
proof -
  have run: "fetch_quotes (logged flaky_kite) big_options ([], 0)
      = (fst (fetch_quotes (logged flaky_kite) big_options ([], 0)),
         (fst (snd (fetch_quotes (logged flaky_kite) big_options ([], 0))),
          snd (snd (fetch_quotes (logged flaky_kite) big_options ([], 0)))))"
    by simp
  from batched_quote_fetch [OF big_tokens_distinct big_symbols_distinct flaky_keys run]
  have "length (fst (snd (fetch_quotes (logged flaky_kite) big_options ([], 0))))
          = (length big_options + 199) div 200"
    and "concat (map fst (fst (snd (fetch_quotes (logged flaky_kite) big_options ([], 0)))))
          = map nfo_id big_options"
    by blast+
  with big_tokens_distinct big_symbols_distinct big_length show ?thesis
    by simp
qed

text \<open>
  C4. The batched fetch always returns a mapping, whatever calls fail. The log has one
  call per round of the loop, in order, so a failed batch is tried once and not again.
  The mapping is the merge of the results of the calls that returned; under the
  conditions of C3 no identifier of a failed batch has an entry in it. The handler that
  runs the fetch on its filtered contracts answers 200 with a chain, whichever batches
  failed, as long as no quote that did arrive has an empty list of depth levels.
\<close>

theorem failed_batch_is_skipped:
  assumes run: "fetch_quotes (logged kite) options ([], w) = (all_quotes, (calls, w'))"
  shows "fetch_quotes kite options w = (all_quotes, w')
       \<and> map fst calls = map (batch_ids options) (range_step 0 (length options) 200)
       \<and> length calls = (length options + 199) div 200
       \<and> all_quotes = foldl (++) Map.empty (successes calls)
       \<and> (distinct (map instrument_token options) \<and> distinct (map tradingsymbol options)
            \<and> (\<forall>ids w0 m w1. quote kite ids w0 = (Inr m, w1) \<longrightarrow> dom m \<subseteq> set ids)
          \<longrightarrow> (\<forall>c \<in> set calls. \<forall>e. snd c = Inl e \<longrightarrow> (\<forall>k \<in> set (fst c). all_quotes k = None)))
       \<and> (symbol \<noteq> None \<and> symbol \<noteq> Some []
            \<and> instruments kite ''NFO'' w0 = (Inr insts, w)
            \<and> filter_expiry today expiry_str (symbol_options (upper (the symbol)) insts) = Inr options
            \<and> options \<noteq> []
            \<and> (\<forall>k q. all_quotes k = Some q \<longrightarrow> levels_ok q)
          \<longrightarrow> (\<exists>resp w''. get_option_chain kite today symbol expiry_str w0
                             = ((Option_chain resp, 200), w'')))"
proof -
  from logged_fetch [OF run]
  have plain: "fetch_quotes kite options w = (all_quotes, w')"
    and c0: "map fst calls = map (batch_ids options) (range_step 0 (length options) batch_size)"
    and merged: "all_quotes = foldl (++) Map.empty (successes calls)"
    and real: "\<forall>c \<in> set calls. \<forall>m. snd c = Inr m \<longrightarrow> (\<exists>w0 w1. quote kite (fst c) w0 = (Inr m, w1))"
    by blast+
  have len: "length calls = (length options + 199) div 200"
    using arg_cong [OF c0, of length] by (simp add: length_range_step)
  have absent: "all_quotes k = None"
    if dt: "distinct (map instrument_token options)"
      and ds: "distinct (map tradingsymbol options)"
      and keys: "\<forall>ids w0 m w1. quote kite ids w0 = (Inr m, w1) \<longrightarrow> dom m \<subseteq> set ids"
      and c: "c \<in> set calls" and e: "snd c = Inl e" and k: "k \<in> set (fst c)" for c e k
  proof (rule ccontr)
    assume "all_quotes k \<noteq> None"
    then obtain v where "all_quotes k = Some v" by auto
    with batched_fetch_facts [OF dt ds keys run] obtain m where
      "m \<in> set (successes calls)" "m k = Some v" by blast
    then obtain ids where i: "(ids, Inr m) \<in> set calls" by (auto simp: successes_set)
    with real obtain w0 w1 where "quote kite ids w0 = (Inr m, w1)" by fastforce
    with keys \<open>m k = Some v\<close> have kin: "k \<in> set ids" by blast
    from i obtain a where a: "a < length calls" "calls ! a = (ids, Inr m)"
      by (auto simp: in_set_conv_nth)
    from c obtain b where b: "b < length calls" "calls ! b = c"
      by (auto simp: in_set_conv_nth)
    have dn: "distinct (map nfo_id options)"
      using ds by (simp add: distinct_map inj_on_def nfo_id_def)
    have c1: "map fst calls = map (\<lambda>i. map nfo_id (take batch_size (drop i options)))
                              (range_step 0 (length options) batch_size)"
      unfolding c0 by (simp add: batch_ids_slice [OF dt])
    have "a = b"
      using kin k a b by (intro call_index_unique [OF dn c1]) simp_all
    with a b e show False by simp
  qed
  have c0': "map fst calls = map (batch_ids options) (range_step 0 (length options) 200)"
    using c0 by (simp add: batch_size_def)
  have absent': "distinct (map instrument_token options) \<and> distinct (map tradingsymbol options)
            \<and> (\<forall>ids w0 m w1. quote kite ids w0 = (Inr m, w1) \<longrightarrow> dom m \<subseteq> set ids)
          \<longrightarrow> (\<forall>c \<in> set calls. \<forall>e. snd c = Inl e \<longrightarrow> (\<forall>k \<in> set (fst c). all_quotes k = None))"
    using absent by blast
  have handler: "symbol \<noteq> None \<and> symbol \<noteq> Some []
            \<and> instruments kite ''NFO'' w0 = (Inr insts, w)
            \<and> filter_expiry today expiry_str (symbol_options (upper (the symbol)) insts) = Inr options
            \<and> options \<noteq> []
            \<and> (\<forall>k q. all_quotes k = Some q \<longrightarrow> levels_ok q)
          \<longrightarrow> (\<exists>resp w''. get_option_chain kite today symbol expiry_str w0
                             = ((Option_chain resp, 200), w''))"
    using handler_answers_chain [OF _ _ _ _ _ plain] by blast
  show ?thesis
    using plain c0' len merged absent' handler by (intro conjI) assumption+
qed

theorem failed_batch_is_skipped_witness:
  "fst (snd (fetch_quotes (logged flaky_kite) big_options ([], 1))) ! 0
     = (batch_ids big_options 0, Inl (KiteException ''timeout''))
   \<and> length (fst (snd (fetch_quotes (logged flaky_kite) big_options ([], 1)))) = 3
   \<and> snd (fetch_quotes flaky_kite big_options 1) = 4
   \<and> ''NFO:200'' \<in> set (batch_ids big_options 200)
   \<and> fst (fetch_quotes flaky_kite big_options 1) ''NFO:200'' = Some demo_quote
   \<and> ''NFO:0'' \<in> set (batch_ids big_options 0)
   \<and> fst (fetch_quotes flaky_kite big_options 1) ''NFO:0'' = None
   \<and> (\<exists>resp w''. get_option_chain flaky_kite (Date 2024 1 20) (Some ''big'') (Some ''2024-01-25'') 0
                     = ((Option_chain resp, 200), w''))"
proof -
  let ?aq = "map_of (map (\<lambda>i. (i, demo_quote)) (batch_ids big_options 200))
        ++ map_of (map (\<lambda>i. (i, demo_quote)) (batch_ids big_options 400))"
  let ?calls = "fst (snd (fetch_quotes (logged flaky_kite) big_options ([], 1)))"
  note facts = failed_batch_is_skipped [OF flaky_run, of "Some ''big''" 0 big_options
      "Date 2024 1 20" "Some ''2024-01-25''"]
  from facts have plain: "fetch_quotes flaky_kite big_options 1 = (?aq, 4)" by blast
  from facts big_tokens_distinct big_symbols_distinct flaky_keys
  have absent: "\<forall>c \<in> set ?calls. \<forall>e. snd c = Inl e \<longrightarrow> (\<forall>k \<in> set (fst c). ?aq k = None)"
    unfolding flaky_run by simp
  have first: "?calls ! 0 = (batch_ids big_options 0, Inl (KiteException ''timeout''))"
    unfolding flaky_run by simp
  have "?calls ! 0 \<in> set ?calls" unfolding flaky_run by simp
  with absent first have gone: "\<forall>k \<in> set (batch_ids big_options 0). ?aq k = None"
    by (metis fst_conv snd_conv)
  with first_id_in_first_batch have lost: "?aq ''NFO:0'' = None" by blast
  have present: "?aq ''NFO:200'' = Some demo_quote"
    using id_200_in_second_batch by (simp add: map_add_def map_of_const)
  have ok: "\<forall>k q. ?aq k = Some q \<longrightarrow> levels_ok q"
    by (auto simp: map_add_def map_of_const levels_ok_def demo_quote_def
          split: option.splits if_splits)
  have insts: "instruments flaky_kite ''NFO'' 0 = (Inr big_options, 1)"
    by (simp add: flaky_kite_def)
  have ne: "big_options \<noteq> []"
    using big_length by auto
  have filt: "filter_expiry (Date 2024 1 20) (Some ''2024-01-25'')
                (symbol_options (upper (the (Some ''big''))) big_options) = Inr big_options"
    by (simp only: option.sel big_symbol_options big_filter_expiry)
  from facts insts filt ne ok
  have chain: "\<exists>resp w''. get_option_chain flaky_kite (Date 2024 1 20) (Some ''big'')
                   (Some ''2024-01-25'') 0 = ((Option_chain resp, 200), w'')"
    by simp
  have len: "length ?calls = 3" unfolding flaky_run by simp
  from first len plain lost present chain first_id_in_first_batch id_200_in_second_batch
  show ?thesis by (simp only: fst_conv snd_conv simp_thms)
qed

end
